theory Spec2Isabelle
  imports Complex_Main "HOL-Library.Word" "HOL-Library.Sublist" "HOL-Library.Multiset"
begin

section \<open>Strings and paths\<close>

text \<open>
  Go strings are byte sequences; they are modelled as \<open>string\<close> (a list of 8-bit
  characters). The library functions that \<open>app.go\<close> calls on them are written out
  below, following the Go standard library. Paths follow the slash-separated
  (Unix) flavour of \<open>path/filepath\<close>.
\<close>

type_synonym path = string
type_synonym bytes = string

text \<open>\<open>strings.Split(s, sep)\<close> for a one-byte separator: \<open>n + 1\<close> parts for \<open>n\<close>
  occurrences of the separator, so the result is never empty.\<close>

fun Split :: "string \<Rightarrow> char \<Rightarrow> string list" where
  "Split [] sep = [[]]"
| "Split (c # cs) sep =
     (if c = sep then [] # Split cs sep
      else (case Split cs sep of
              [] \<Rightarrow> [[c]]
            | p # ps \<Rightarrow> (c # p) # ps))"

text \<open>\<open>strings.TrimPrefix(s, prefix)\<close>.\<close>

definition TrimPrefix :: "string \<Rightarrow> string \<Rightarrow> string" where
  "TrimPrefix s p = (if prefix p s then drop (length p) s else s)"

text \<open>
  \<open>strings.TrimSpace\<close> removes the leading and trailing white space of a string, as
  Unicode defines it. The string is UTF-8, so the white space code points are the
  byte sequences below (U+0009..U+000D, U+0020, U+0085, U+00A0, U+1680,
  U+2000..U+200A, U+2028, U+2029, U+202F, U+205F, U+3000).
\<close>

definition spaceRunes :: "string list" where
  "spaceRunes =
     [[CHR 0x09], [CHR 0x0A], [CHR 0x0B], [CHR 0x0C], [CHR 0x0D], [CHR 0x20],
      [CHR 0xC2, CHR 0x85], [CHR 0xC2, CHR 0xA0],
      [CHR 0xE1, CHR 0x9A, CHR 0x80],
      [CHR 0xE2, CHR 0x80, CHR 0x80], [CHR 0xE2, CHR 0x80, CHR 0x81],
      [CHR 0xE2, CHR 0x80, CHR 0x82], [CHR 0xE2, CHR 0x80, CHR 0x83],
      [CHR 0xE2, CHR 0x80, CHR 0x84], [CHR 0xE2, CHR 0x80, CHR 0x85],
      [CHR 0xE2, CHR 0x80, CHR 0x86], [CHR 0xE2, CHR 0x80, CHR 0x87],
      [CHR 0xE2, CHR 0x80, CHR 0x88], [CHR 0xE2, CHR 0x80, CHR 0x89],
      [CHR 0xE2, CHR 0x80, CHR 0x8A],
      [CHR 0xE2, CHR 0x80, CHR 0xA8], [CHR 0xE2, CHR 0x80, CHR 0xA9],
      [CHR 0xE2, CHR 0x80, CHR 0xAF],
      [CHR 0xE2, CHR 0x81, CHR 0x9F],
      [CHR 0xE3, CHR 0x80, CHR 0x80]]"

text \<open>The first white space rune that \<open>s\<close> starts with, among the candidates.\<close>

fun leadingSpace :: "string list \<Rightarrow> string \<Rightarrow> nat option" where
  "leadingSpace [] s = None"
| "leadingSpace (r # rs) s =
     (if r \<noteq> [] \<and> prefix r s then Some (length r) else leadingSpace rs s)"

lemma leadingSpace_pos: "leadingSpace rs s = Some n \<Longrightarrow> 0 < n \<and> n \<le> length s"
  by (induction rs) (auto split: if_splits simp: prefix_def)

function TrimLeft :: "string list \<Rightarrow> string \<Rightarrow> string" where
  "TrimLeft rs s =
     (case leadingSpace rs s of
        None \<Rightarrow> s
      | Some n \<Rightarrow> TrimLeft rs (drop n s))"
  by pat_completeness auto
termination
  by (relation "measure (\<lambda>(rs, s). length s)") (auto dest: leadingSpace_pos)

definition TrimSpace :: "string \<Rightarrow> string" where
  "TrimSpace s = rev (TrimLeft (map rev spaceRunes) (rev (TrimLeft spaceRunes s)))"

subsection \<open>path/filepath\<close>

text \<open>
  \<open>filepath.Clean\<close>: empty elements and \<open>.\<close> are dropped; \<open>..\<close> removes the element
  before it when there is one that is not itself \<open>..\<close>, is dropped at the root
  of a rooted path and is kept otherwise; the empty result is \<open>.\<close>. The
  elements kept so far are held in reverse (the last one first).
\<close>

fun cleanStep :: "bool \<Rightarrow> string list \<Rightarrow> string \<Rightarrow> string list" where
  "cleanStep rooted out e =
     (if e = [] \<or> e = ''.'' then out
      else if e = ''..'' then
        (case out of
           [] \<Rightarrow> (if rooted then [] else [''..''])
         | t # ts \<Rightarrow> (if t = ''..'' then ''..'' # t # ts else ts))
      else e # out)"

definition isRooted :: "path \<Rightarrow> bool" where
  "isRooted p = (case p of [] \<Rightarrow> False | c # _ \<Rightarrow> c = CHR ''/'')"

definition cleanElems :: "path \<Rightarrow> string list" where
  "cleanElems p = rev (foldl (cleanStep (isRooted p)) [] (Split p CHR ''/''))"

fun joinSlash :: "string list \<Rightarrow> string" where
  "joinSlash [] = []"
| "joinSlash [e] = e"
| "joinSlash (e # es) = e @ ''/'' @ joinSlash es"

definition Clean :: "path \<Rightarrow> path" where
  "Clean p =
     (let es = cleanElems p in
      if isRooted p then ''/'' @ joinSlash es
      else if es = [] then ''.''
      else joinSlash es)"

text \<open>\<open>filepath.Join\<close>: leading empty elements are skipped, the rest is joined with
  the separator and cleaned; with nothing but empty elements the result is empty.\<close>

fun Join :: "string list \<Rightarrow> path" where
  "Join [] = []"
| "Join (e # es) = (if e = [] then Join es else Clean (joinSlash (e # es)))"

text \<open>\<open>filepath.Dir\<close>: everything up to the last separator, cleaned.\<close>

definition lastSlash :: "path \<Rightarrow> path" where
  "lastSlash p = rev (dropWhile (\<lambda>c. c \<noteq> CHR ''/'') (rev p))"

definition Dir :: "path \<Rightarrow> path" where
  "Dir p = Clean (lastSlash p)"

text \<open>\<open>filepath.Ext\<close>: the suffix from the last dot of the last element, or empty.\<close>

fun extScan :: "string \<Rightarrow> string \<Rightarrow> string" where
  "extScan [] acc = []"
| "extScan (c # cs) acc =
     (if c = CHR ''/'' then []
      else if c = CHR ''.'' then c # acc
      else extScan cs (c # acc))"

definition Ext :: "path \<Rightarrow> string" where
  "Ext p = extScan (rev p) []"

section \<open>Data model\<close>

record File =
  LocalFile :: string
  PackedHash :: string
  PackedSize :: int
  URL :: string
  UnpackedHash :: string
  UnpackedSize :: int

record AssetsInfo =
  AssetsInfo_Files :: "File list"
  AssetsInfo_Version :: int

record ClientInfo =
  ClientInfo_Revision :: int
  ClientInfo_Version :: string
  ClientInfo_Files :: "File list"
  ClientInfo_Executable :: string
  ClientInfo_Generation :: string
  ClientInfo_Variant :: string

text \<open>
  Go's \<open>error\<close> values: the one \<open>app.go\<close> builds itself
  (\<open>fmt.Errorf("failed to download: status %d", ...)\<close>), the not-exist error that
  \<open>os.IsNotExist\<close> recognises, and any other error of the operating system or of a
  library, with its message.
\<close>

datatype error = StatusError int | ErrNotExist | LibError string

text \<open>The calls of the logger, in order: the format string as written in the source
  and the arguments.\<close>

datatype logArg = S string | I int | E error | B bool | F rat

datatype logEntry = Infof string "logArg list" | Errorf string "logArg list"

text \<open>
  The \<open>App\<close> struct. The counters are \<open>int64\<close>. The fields \<open>ctx\<close>, \<open>parallel\<close>,
  \<open>activeDownloads\<close>, \<open>mutex\<close>, \<open>queue\<close> and \<open>cancel\<close> are never read by the
  functions below and are left out.
\<close>

record App =
  logger :: "logEntry list"
  baseURL :: string
  appName :: string
  clientInfo :: ClientInfo
  assetsInfo :: AssetsInfo
  totalBytes :: "64 word"
  totalFiles :: "64 word"
  downloadedBytes :: "64 word"
  downloadedFiles :: "64 word"

definition Log :: "logEntry \<Rightarrow> App \<Rightarrow> App" where
  "Log e a = a\<lparr>logger := logger a @ [e]\<rparr>"

section \<open>The environment\<close>

text \<open>
  An \<open>io.Reader\<close> that is not a file: the data its successive \<open>Read\<close> calls return,
  and then either \<open>io.EOF\<close> (\<open>None\<close>) or an error.
\<close>

record reader =
  chunks :: "bytes list"
  readErr :: "error option"

record response =
  StatusCode :: int
  ContentLength :: "64 word"
  Body :: reader

text \<open>An entry of a ZIP archive: \<open>f.Name\<close>, \<open>f.FileInfo().IsDir()\<close> and the result
  of \<open>f.Open()\<close>.\<close>

record zipFile =
  Name :: string
  IsDir :: bool
  Open :: "error + reader"

text \<open>
  The world outside the process: the regular files with their contents, the
  directories, and the HTTP requests issued so far.
\<close>

record world =
  files :: "path \<rightharpoonup> bytes"
  dirs :: "path set"
  requests :: "string list"

datatype syscall =
    SysMkdirAll path | SysCreate path | SysWrite path | SysOpen path | SysRead path
  | SysStat path | SysRemoveAll path | SysWriteFile path | SysReadFile path

text \<open>
  What the program does not decide. \<open>fault\<close> says which system calls fail, and with
  which error, in a given state of the world (a missing parent directory, a
  read-only file, a full disk); a call that does not fail has the effect written
  below. \<open>httpGet\<close> is the answer to a request, given the number of requests made
  before it. \<open>lzmaRead\<close> is the behaviour of the LZMA decoder on a stream (see
  \<open>lzmaPlan\<close>), \<open>zipRead\<close> is \<open>zip.OpenReader\<close> on the bytes of a file,
  \<open>jsonClient\<close> and \<open>jsonAssets\<close> are \<open>json.Unmarshal\<close> into the two manifest
  types (the value left in the destination is returned also when it fails), and
  \<open>sha256hex\<close> is the hex-encoded SHA-256 digest.
\<close>

record lzmaPlan =
  hdrReads :: nat
  hdrErr :: "error option"
  steps :: "(nat \<times> bytes) list"
  endReads :: nat
  endErr :: "error option"

record env =
  GOOS :: string
  UserConfigDir :: "error + path"
  TempDir :: path
  httpGet :: "nat \<Rightarrow> string \<Rightarrow> error + response"
  fault :: "syscall \<Rightarrow> world \<Rightarrow> error option"
  zipRead :: "bytes \<Rightarrow> error + zipFile list"
  lzmaRead :: "reader \<Rightarrow> lzmaPlan"
  jsonClient :: "bytes \<Rightarrow> ClientInfo \<Rightarrow> error option \<times> ClientInfo"
  jsonAssets :: "bytes \<Rightarrow> AssetsInfo \<Rightarrow> error option \<times> AssetsInfo"
  sha256hex :: "bytes \<Rightarrow> string"

subsection \<open>System calls\<close>

text \<open>The directories that \<open>os.MkdirAll\<close> makes sure exist: the path and its parents.\<close>

definition ancestors :: "path \<Rightarrow> path list" where
  "ancestors p =
     map (\<lambda>es. (if isRooted p then ''/'' else []) @ joinSlash es)
         (filter (\<lambda>es. es \<noteq> []) (prefixes (cleanElems p)))"

definition os_MkdirAll :: "env \<Rightarrow> path \<Rightarrow> world \<Rightarrow> error option \<times> world" where
  "os_MkdirAll en p w =
     (case fault en (SysMkdirAll p) w of
        Some e \<Rightarrow> (Some e, w)
      | None \<Rightarrow> (None, w\<lparr>dirs := dirs w \<union> set (ancestors p)\<rparr>))"

text \<open>\<open>os.Create\<close>: the file is created, or truncated when it exists.\<close>

definition os_Create :: "env \<Rightarrow> path \<Rightarrow> world \<Rightarrow> error option \<times> world" where
  "os_Create en p w =
     (case fault en (SysCreate p) w of
        Some e \<Rightarrow> (Some e, w)
      | None \<Rightarrow> (None, w\<lparr>files := (files w)(p \<mapsto> [])\<rparr>))"

text \<open>A write to the file opened at a path: the bytes are appended.\<close>

definition os_Write :: "env \<Rightarrow> path \<Rightarrow> bytes \<Rightarrow> world \<Rightarrow> error option \<times> world" where
  "os_Write en p b w =
     (case fault en (SysWrite p) w of
        Some e \<Rightarrow> (Some e, w)
      | None \<Rightarrow>
          (None, w\<lparr>files := (files w)(p \<mapsto> (case files w p of None \<Rightarrow> [] | Some old \<Rightarrow> old) @ b)\<rparr>))"

definition os_WriteFile :: "env \<Rightarrow> path \<Rightarrow> bytes \<Rightarrow> world \<Rightarrow> error option \<times> world" where
  "os_WriteFile en p b w =
     (case fault en (SysWriteFile p) w of
        Some e \<Rightarrow> (Some e, w)
      | None \<Rightarrow> (None, w\<lparr>files := (files w)(p \<mapsto> b)\<rparr>))"

definition os_ReadFile :: "env \<Rightarrow> path \<Rightarrow> world \<Rightarrow> error + bytes" where
  "os_ReadFile en p w =
     (case fault en (SysReadFile p) w of
        Some e \<Rightarrow> Inl e
      | None \<Rightarrow> (case files w p of None \<Rightarrow> Inl ErrNotExist | Some b \<Rightarrow> Inr b))"

definition os_Stat :: "env \<Rightarrow> path \<Rightarrow> world \<Rightarrow> error option" where
  "os_Stat en p w =
     (case fault en (SysStat p) w of
        Some e \<Rightarrow> Some e
      | None \<Rightarrow> (if files w p \<noteq> None \<or> p \<in> dirs w then None else Some ErrNotExist))"

text \<open>\<open>os.RemoveAll\<close>: the path and everything below it.\<close>

definition below :: "path \<Rightarrow> path \<Rightarrow> bool" where
  "below p q = (q = p \<or> prefix (p @ ''/'') q)"

definition os_RemoveAll :: "env \<Rightarrow> path \<Rightarrow> world \<Rightarrow> error option \<times> world" where
  "os_RemoveAll en p w =
     (case fault en (SysRemoveAll p) w of
        Some e \<Rightarrow> (Some e, w)
      | None \<Rightarrow>
          (None, w\<lparr>files := (\<lambda>q. if below p q then None else files w q),
                   dirs := {q \<in> dirs w. \<not> below p q}\<rparr>))"

definition http_Get :: "env \<Rightarrow> string \<Rightarrow> world \<Rightarrow> (error + response) \<times> world" where
  "http_Get en url w =
     (httpGet en (length (requests w)) url, w\<lparr>requests := requests w @ [url]\<rparr>)"

text \<open>\<open>io.ReadAll\<close>: everything read, and the error that ended the reading if any.\<close>

definition io_ReadAll :: "reader \<Rightarrow> bytes \<times> error option" where
  "io_ReadAll r = (concat (chunks r), readErr r)"

text \<open>
  \<open>io.Copy(out, r)\<close> into the file opened at \<open>out\<close>: each chunk is read, which runs
  \<open>onRead\<close> on it (the \<open>Write\<close> of the second argument of an \<open>io.TeeReader\<close>, or
  nothing for a plain reader), and then written; the first failing write ends the
  copy, and so does the reader's own error after the last chunk.
\<close>

fun io_Copy ::
  "env \<Rightarrow> path \<Rightarrow> (bytes \<Rightarrow> 's \<Rightarrow> 's) \<Rightarrow> bytes list \<Rightarrow> error option \<Rightarrow> 's \<times> world
     \<Rightarrow> error option \<times> 's \<times> world" where
  "io_Copy en out onRead [] rerr (s, w) = (rerr, s, w)"
| "io_Copy en out onRead (c # cs) rerr (s, w) =
     (let s' = onRead c s in
      case os_Write en out c w of
        (Some e, w') \<Rightarrow> (Some e, s', w')
      | (None, w') \<Rightarrow> io_Copy en out onRead cs rerr (s', w'))"

section \<open>The program\<close>

text \<open>
  Every function takes the environment and returns its results together with the
  state it leaves: the \<open>App\<close> it is a method of, where it changes it (the logger
  counts), and the world, where it makes system calls or requests.
\<close>

definition OS :: "env \<Rightarrow> string" where
  "OS en = (if GOOS en = ''darwin'' then ''mac'' else GOOS en)"

definition remoteClientJSON :: "env \<Rightarrow> string" where
  "remoteClientJSON en = ''client.'' @ OS en @ ''.json''"

definition remoteAssetsJSON :: "env \<Rightarrow> string" where
  "remoteAssetsJSON en = ''assets.'' @ OS en @ ''.json''"

definition appDirectory :: "env \<Rightarrow> App \<Rightarrow> path \<times> App" where
  "appDirectory en a =
     (case UserConfigDir en of
        Inl e \<Rightarrow> ([], Log (Errorf ''Error getting config directory: %v'' [E e]) a)
      | Inr configDir \<Rightarrow>
          (Join [configDir, if OS en = ''mac'' then appName a @ ''.app'' else appName a], a))"

definition fileExists :: "env \<Rightarrow> world \<Rightarrow> path \<Rightarrow> bool" where
  "fileExists en w p = (os_Stat en p w \<noteq> Some ErrNotExist)"

text \<open>\<open>readJSON\<close>: the destination \<open>d\<close> is passed by reference, so the value it holds
  afterwards is returned with the error.\<close>

definition readJSON ::
  "env \<Rightarrow> (bytes \<Rightarrow> 'd \<Rightarrow> error option \<times> 'd) \<Rightarrow> path \<Rightarrow> 'd \<Rightarrow> world \<Rightarrow> error option \<times> 'd" where
  "readJSON en unmarshal s d w =
     (case os_ReadFile en s w of
        Inl e \<Rightarrow> (Some e, d)
      | Inr contents \<Rightarrow> unmarshal contents d)"

text \<open>\<open>App.Write\<close>, the progress callback: it returns \<open>len(p)\<close> and no error.\<close>

definition Write :: "App \<Rightarrow> bytes \<Rightarrow> App" where
  "Write a p = a\<lparr>downloadedBytes := downloadedBytes a + of_nat (length p)\<rparr>"

definition teeWrite :: "bool \<Rightarrow> bytes \<Rightarrow> App \<Rightarrow> App" where
  "teeWrite progress c a = (if progress then Write a c else a)"

definition sha256Sum :: "env \<Rightarrow> path \<Rightarrow> world \<Rightarrow> error + string" where
  "sha256Sum en filename w =
     (case fault en (SysOpen filename) w of
        Some e \<Rightarrow> Inl e
      | None \<Rightarrow>
          (case files w filename of
             None \<Rightarrow>
               (if filename \<in> dirs w then Inl (LibError ''is a directory'') else Inl ErrNotExist)
           | Some b \<Rightarrow>
               (case fault en (SysRead filename) w of
                  Some e \<Rightarrow> Inl e
                | None \<Rightarrow> Inr (sha256hex en b))))"

subsection \<open>Archive extraction\<close>

text \<open>The first loop of \<open>unzipToFolder\<close>, from the current value of \<open>rootFolder\<close>.\<close>

fun rootFolderScan :: "string \<Rightarrow> zipFile list \<Rightarrow> string" where
  "rootFolderScan rootFolder [] = rootFolder"
| "rootFolderScan rootFolder (f # r) =
     (let parts = Split (Name f) CHR ''/'' in
      if length parts > 0 then
        (if rootFolder = [] then rootFolderScan (hd parts) r
         else if rootFolder \<noteq> hd parts then []
         else rootFolderScan rootFolder r)
      else rootFolderScan rootFolder r)"

text \<open>The target path of an entry in the second loop; \<open>None\<close> is its \<open>continue\<close>.\<close>

definition extractTarget :: "path \<Rightarrow> string \<Rightarrow> zipFile \<Rightarrow> path option" where
  "extractTarget dst rootFolder f =
     (if rootFolder \<noteq> [] then
        (let relPath = TrimPrefix (Name f) (rootFolder @ ''/'') in
         if relPath = [] then None else Some (Join [dst, relPath]))
      else Some (Join [dst, Name f]))"

fun extractFiles :: "env \<Rightarrow> path \<Rightarrow> string \<Rightarrow> zipFile list \<Rightarrow> world \<Rightarrow> error option \<times> world" where
  "extractFiles en dst rootFolder [] w = (None, w)"
| "extractFiles en dst rootFolder (f # r) w =
     (case extractTarget dst rootFolder f of
        None \<Rightarrow> extractFiles en dst rootFolder r w
      | Some targetPath \<Rightarrow>
          if IsDir f then
            (case os_MkdirAll en targetPath w of
               (Some e, w1) \<Rightarrow> (Some e, w1)
             | (None, w1) \<Rightarrow> extractFiles en dst rootFolder r w1)
          else
            (case os_MkdirAll en (Dir targetPath) w of
               (Some e, w1) \<Rightarrow> (Some e, w1)
             | (None, w1) \<Rightarrow>
                 (case Open f of
                    Inl e \<Rightarrow> (Some e, w1)
                  | Inr rc \<Rightarrow>
                      (case os_Create en targetPath w1 of
                         (Some e, w2) \<Rightarrow> (Some e, w2)
                       | (None, w2) \<Rightarrow>
                           (case io_Copy en targetPath (\<lambda>c u. u) (chunks rc) (readErr rc) ((), w2) of
                              (Some e, u, w3) \<Rightarrow> (Some e, w3)
                            | (None, u, w3) \<Rightarrow> extractFiles en dst rootFolder r w3)))))"

definition unzipToFolder :: "env \<Rightarrow> path \<Rightarrow> path \<Rightarrow> world \<Rightarrow> error option \<times> world" where
  "unzipToFolder en src dst w =
     (case os_ReadFile en src w of
        Inl e \<Rightarrow> (Some e, w)
      | Inr b \<Rightarrow>
          (case zipRead en b of
             Inl e \<Rightarrow> (Some e, w)
           | Inr r \<Rightarrow> extractFiles en dst (rootFolderScan [] r) r w))"

subsection \<open>Transfers\<close>

definition downloadZip ::
  "env \<Rightarrow> string \<Rightarrow> string \<Rightarrow> bool \<Rightarrow> App \<times> world \<Rightarrow> error option \<times> App \<times> world" where
  "downloadZip en url targetFolder progress aw =
     (let (a0, w0) = aw;
          (dir, a1) = appDirectory en a0;
          targetPath = Join [dir, targetFolder] in
      case os_MkdirAll en targetPath w0 of
        (Some e, w1) \<Rightarrow> (Some e, a1, w1)
      | (None, w1) \<Rightarrow>
          (let tempFile = Join [TempDir en, ''nordemon_download.zip''] in
           case os_Create en tempFile w1 of
             (Some e, w2) \<Rightarrow> (Some e, a1, w2)
           | (None, w2) \<Rightarrow>
               (case http_Get en url w2 of
                  (Inl e, w3) \<Rightarrow> (Some e, a1, w3)
                | (Inr resp, w3) \<Rightarrow>
                    if StatusCode resp \<noteq> 200 then (Some (StatusError (StatusCode resp)), a1, w3)
                    else
                      (let a2 = a1\<lparr>totalBytes := ContentLength resp\<rparr> in
                       case io_Copy en tempFile (teeWrite progress)
                              (chunks (Body resp)) (readErr (Body resp)) (a2, w3) of
                         (Some e, a3, w4) \<Rightarrow> (Some e, a3, w4)
                       | (None, a3, w4) \<Rightarrow>
                           (case unzipToFolder en tempFile targetPath w4 of
                              (Some e, w5) \<Rightarrow> (Some e, a3, w5)
                            | (None, w5) \<Rightarrow>
                                (None, a3\<lparr>downloadedFiles := downloadedFiles a3 + 1\<rparr>, w5))))))"

text \<open>
  The LZMA reader of \<open>downloadFile\<close> reads from the (possibly teed) response body.
  Its behaviour is a plan that the environment derives from the stream:
  \<open>lzma.NewReader\<close> makes \<open>hdrReads\<close> reads of the body and then fails with
  \<open>hdrErr\<close> or not; each step of the copy makes some reads of the body and
  yields a chunk of decoded data; at the end it makes \<open>endReads\<close> reads and reports
  end of file or \<open>endErr\<close>. A read of the body through the tee runs \<open>Write\<close>.
\<close>

definition pullReads :: "bool \<Rightarrow> nat \<Rightarrow> bytes list \<Rightarrow> App \<Rightarrow> App \<times> bytes list" where
  "pullReads progress n cs a = (foldl (\<lambda>a c. teeWrite progress c a) a (take n cs), drop n cs)"

fun lzma_Copy ::
  "env \<Rightarrow> path \<Rightarrow> bool \<Rightarrow> (nat \<times> bytes) list \<Rightarrow> nat \<Rightarrow> error option \<Rightarrow> bytes list \<Rightarrow> App \<times> world
     \<Rightarrow> error option \<times> App \<times> world" where
  "lzma_Copy en out progress [] endN endE cs (a, w) =
     (endE, fst (pullReads progress endN cs a), w)"
| "lzma_Copy en out progress ((n, c) # ss) endN endE cs (a, w) =
     (let (a', cs') = pullReads progress n cs a in
      case os_Write en out c w of
        (Some e, w') \<Rightarrow> (Some e, a', w')
      | (None, w') \<Rightarrow> lzma_Copy en out progress ss endN endE cs' (a', w'))"

definition downloadFile ::
  "env \<Rightarrow> string \<Rightarrow> string \<Rightarrow> bool \<Rightarrow> App \<times> world \<Rightarrow> error option \<times> App \<times> world" where
  "downloadFile en url dst0 progress aw =
     (let (a0, w0) = aw;
          a1 = Log (Infof ''Downloading %s to %s'' [S url, S dst0]) a0;
          (dir, a2) = appDirectory en a1;
          dst = Join [dir, dst0] in
      case os_MkdirAll en (Dir dst) w0 of
        (Some e, w1) \<Rightarrow> (Some e, a2, w1)
      | (None, w1) \<Rightarrow>
          (case os_Create en dst w1 of
             (Some e, w2) \<Rightarrow> (Some e, a2, w2)
           | (None, w2) \<Rightarrow>
               (case http_Get en url w2 of
                  (Inl e, w3) \<Rightarrow> (Some e, a2, w3)
                | (Inr resp, w3) \<Rightarrow>
                    if StatusCode resp \<noteq> 200 then (Some (StatusError (StatusCode resp)), a2, w3)
                    else if Ext dst \<noteq> ''.lzma'' \<and> Ext url = ''.lzma'' then
                      (let plan = lzmaRead en (Body resp);
                           (a3, cs) = pullReads progress (hdrReads plan) (chunks (Body resp)) a2 in
                       case hdrErr plan of
                         Some e \<Rightarrow> (Some e, a3, w3)
                       | None \<Rightarrow>
                           (case lzma_Copy en dst progress (steps plan) (endReads plan)
                                   (endErr plan) cs (a3, w3) of
                              (Some e, a4, w4) \<Rightarrow> (Some e, a4, w4)
                            | (None, a4, w4) \<Rightarrow>
                                (None, a4\<lparr>downloadedFiles := downloadedFiles a4 + 1\<rparr>, w4)))
                    else
                      (case io_Copy en dst (teeWrite progress)
                              (chunks (Body resp)) (readErr (Body resp)) (a2, w3) of
                         (Some e, a4, w4) \<Rightarrow> (Some e, a4, w4)
                       | (None, a4, w4) \<Rightarrow>
                           (None, a4\<lparr>downloadedFiles := downloadedFiles a4 + 1\<rparr>, w4)))))"

subsection \<open>Manifests\<close>

definition refreshManifests :: "env \<Rightarrow> App \<times> world \<Rightarrow> App \<times> world" where
  "refreshManifests en aw =
     (let (err1, a1, w1) =
            downloadFile en (baseURL (fst aw) @ remoteClientJSON en) ''client.json'' False aw;
          a2 = (case err1 of
                  Some e \<Rightarrow> Log (Errorf ''Error downloading %s: %v'' [S (remoteClientJSON en), E e]) a1
                | None \<Rightarrow> a1);
          (dir1, a3) = appDirectory en a2;
          clientPath = Join [dir1, ''client.json''];
          a4 = Log (Infof ''Reading client manifest from: %s'' [S clientPath]) a3;
          (err2, ci) = readJSON en (jsonClient en) clientPath (clientInfo a4) w1;
          a5 = a4\<lparr>clientInfo := ci\<rparr>;
          a6 = (case err2 of
                  Some e \<Rightarrow> Log (Errorf ''Error reading %s: %v'' [S ''client.json'', E e]) a5
                | None \<Rightarrow>
                    Log (Infof ''Successfully loaded client.json: version=%s, files=%d''
                           [S (ClientInfo_Version ci), I (int (length (ClientInfo_Files ci)))]) a5);
          (err3, a7, w2) =
            downloadFile en (baseURL a6 @ remoteAssetsJSON en) ''assets.json'' False (a6, w1);
          a8 = (case err3 of
                  Some e \<Rightarrow> Log (Errorf ''Error downloading %s: %v'' [S (remoteAssetsJSON en), E e]) a7
                | None \<Rightarrow> a7);
          (dir2, a9) = appDirectory en a8;
          assetsPath = Join [dir2, ''assets.json''];
          a10 = Log (Infof ''Reading assets manifest from: %s'' [S assetsPath]) a9;
          (err4, ai) = readJSON en (jsonAssets en) assetsPath (assetsInfo a10) w2;
          a11 = a10\<lparr>assetsInfo := ai\<rparr>;
          a12 = (case err4 of
                   Some e \<Rightarrow> Log (Errorf ''Error reading %s: %v'' [S ''assets.json'', E e]) a11
                 | None \<Rightarrow>
                     Log (Infof ''Successfully loaded assets.json: version=%s, files=%d''
                            [I (AssetsInfo_Version ai), I (int (length (AssetsInfo_Files ai)))]) a11)
      in (a12, w2))"

subsection \<open>Progress\<close>

text \<open>
  A finite \<open>float64\<close> is modelled by the rational number it denotes. A conversion
  from \<open>int64\<close>, a division and a multiplication give the exact result rounded to
  the nearest number with a 53-bit significand, ties to even. The exponent range
  is not modelled: the values of \<open>DownloadPercent\<close> are zero or lie between
  \<open>2 powi -63\<close> and \<open>100 * 2 ^ 63\<close> in magnitude, far inside it. A negative zero
  is the rational zero.
\<close>

fun bitLen :: "nat \<Rightarrow> nat" where
  "bitLen n = (if n = 0 then 0 else Suc (bitLen (n div 2)))"

declare bitLen.simps [simp del]

text \<open>For \<open>0 < x\<close>, the exponent \<open>e\<close> with \<open>2 powi e \<le> x < 2 powi (e + 1)\<close>.\<close>

definition exponent :: "rat \<Rightarrow> int" where
  "exponent x =
     (let (p, q) = quotient_of x;
          k = int (bitLen (nat p)) - int (bitLen (nat q)) in
      if 2 powi k \<le> x then k else k - 1)"

definition roundEven :: "rat \<Rightarrow> int" where
  "roundEven m =
     (let f = \<lfloor>m\<rfloor>; d = m - of_int f in
      if d < 1 / 2 then f
      else if 1 / 2 < d then f + 1
      else if even f then f else f + 1)"

definition round64 :: "rat \<Rightarrow> rat" where
  "round64 x =
     (if x = 0 then 0
      else (let u = 2 powi (exponent \<bar>x\<bar> - 52) in
            sgn x * of_int (roundEven (\<bar>x\<bar> / u)) * u))"

definition float64 :: "64 word \<Rightarrow> rat" where
  "float64 n = round64 (of_int (sint n))"

definition fdiv :: "rat \<Rightarrow> rat \<Rightarrow> rat" where
  "fdiv x y = round64 (x / y)"

definition fmul :: "rat \<Rightarrow> rat \<Rightarrow> rat" where
  "fmul x y = round64 (x * y)"

definition DownloadPercent :: "App \<Rightarrow> rat \<times> App" where
  "DownloadPercent a =
     (if totalBytes a = 0 then (0, a)
      else (let percent = fmul (fdiv (float64 (downloadedBytes a)) (float64 (totalBytes a))) 100 in
            (percent,
             Log (Infof ''Downloaded %d/%d files |  %d/%d bytes (%.2f%%)''
                    [I (sint (downloadedFiles a)), I (sint (totalFiles a)),
                     I (sint (downloadedBytes a)), I (sint (totalBytes a)), F percent]) a)))"

subsection \<open>Version check and update\<close>

definition NeedsUpdate :: "env \<Rightarrow> App \<times> world \<Rightarrow> bool \<times> App \<times> world" where
  "NeedsUpdate en aw =
     (let (a0, w0) = aw;
          versionURL = baseURL a0 @ ''client_version.txt'' in
      case http_Get en versionURL w0 of
        (Inl e, w1) \<Rightarrow>
          (let a1 = Log (Errorf ''Error downloading version file: %v'' [E e]) a0;
               (dir, a2) = appDirectory en a1;
               initPath = Join [dir, ''client'', ''init.lua'']
           in (\<not> fileExists en w1 initPath, a2, w1))
      | (Inr resp, w1) \<Rightarrow>
          (case io_ReadAll (Body resp) of
             (remoteVersionBytes, Some e) \<Rightarrow>
               (False, Log (Errorf ''Error reading remote version: %v'' [E e]) a0, w1)
           | (remoteVersionBytes, None) \<Rightarrow>
               (let remoteVersion = TrimSpace remoteVersionBytes;
                    a1 = Log (Infof ''Remote client version: %s'' [S remoteVersion]) a0;
                    (dir, a2) = appDirectory en a1;
                    localVersionPath = Join [dir, ''client_version.txt'']
                in if \<not> fileExists en w1 localVersionPath then
                     (True, Log (Infof ''No local version file - needs update'' []) a2, w1)
                   else
                     (case os_ReadFile en localVersionPath w1 of
                        Inl e \<Rightarrow> (True, Log (Errorf ''Error reading local version: %v'' [E e]) a2, w1)
                      | Inr localVersionBytes \<Rightarrow>
                          (let localVersion = TrimSpace localVersionBytes;
                               a3 = Log (Infof ''Local client version: %s'' [S localVersion]) a2;
                               needsUpdate = (localVersion \<noteq> remoteVersion)
                           in (needsUpdate, Log (Infof ''Needs update: %v'' [B needsUpdate]) a3, w1))))))"

text \<open>The loop of \<open>Update\<close> over the old client folders; the result of
  \<open>os.RemoveAll\<close> is not looked at.\<close>

fun removeOldFolders :: "env \<Rightarrow> string list \<Rightarrow> App \<times> world \<Rightarrow> App \<times> world" where
  "removeOldFolders en [] aw = aw"
| "removeOldFolders en (folder # r) (a, w) =
     (let (dir, a1) = appDirectory en a;
          oldPath = Join [dir, folder] in
      if fileExists en w oldPath then
        removeOldFolders en r
          (Log (Infof ''Removing old folder: %s'' [S oldPath]) a1, snd (os_RemoveAll en oldPath w))
      else removeOldFolders en r (a1, w))"

definition clientFolders :: "string list" where
  "clientFolders = [''OTCLIENT'', ''OTCLIENT NORDEMON'', ''OTCLIENTE NORDEMON CRIPT'', ''client'']"

definition Update :: "env \<Rightarrow> App \<times> world \<Rightarrow> App \<times> world" where
  "Update en aw =
     (let (a0, w0) = aw;
          a1 = Log (Infof ''Downloading full client ZIP...'' []) a0;
          a2 = a1\<lparr>totalFiles := 1, totalBytes := 0, downloadedFiles := 0, downloadedBytes := 0\<rparr>;
          a3 = Log (Infof ''Cleaning old client folders...'' []) a2;
          (a4, w1) = removeOldFolders en clientFolders (a3, w0);
          downloadURLPath = baseURL a4 @ ''client_download_url.txt'';
          a5 = Log (Infof ''Fetching download URL from: %s'' [S downloadURLPath]) a4 in
      case http_Get en downloadURLPath w1 of
        (Inl e, w2) \<Rightarrow> (Log (Errorf ''Error fetching download URL: %v'' [E e]) a5, w2)
      | (Inr resp, w2) \<Rightarrow>
          (case io_ReadAll (Body resp) of
             (urlBytes, Some e) \<Rightarrow> (Log (Errorf ''Error reading download URL: %v'' [E e]) a5, w2)
           | (urlBytes, None) \<Rightarrow>
               (let zipURL = TrimSpace urlBytes;
                    a6 = Log (Infof ''ZIP URL: %s'' [S zipURL]) a5 in
                case downloadZip en zipURL ''client'' True (a6, w2) of
                  (Some e, a7, w3) \<Rightarrow> (Log (Errorf ''Error downloading client ZIP: %v'' [E e]) a7, w3)
                | (None, a7, w3) \<Rightarrow>
                    (let a8 = Log (Infof ''Client ZIP downloaded and extracted successfully!'' []) a7;
                         versionURL = baseURL a8 @ ''client_version.txt'' in
                     case http_Get en versionURL w3 of
                       (Inl e, w4) \<Rightarrow> (a8, w4)
                     | (Inr resp2, w4) \<Rightarrow>
                         (case io_ReadAll (Body resp2) of
                            (versionBytes, Some e) \<Rightarrow> (a8, w4)
                          | (versionBytes, None) \<Rightarrow>
                              (let (dir, a9) = appDirectory en a8;
                                   versionPath = Join [dir, ''client_version.txt''];
                                   w5 = snd (os_WriteFile en versionPath versionBytes w4)
                               in (Log (Infof ''Saved client version: %s'' [S (TrimSpace versionBytes)]) a9,
                                   w5)))))))"

subsection \<open>Diff planning\<close>

text \<open>
  The body of the goroutine that \<open>filesToUpdate\<close> starts for an entry, on the shared
  slice \<open>files\<close> (and the logger). The world is only read.
\<close>

definition checkFile :: "env \<Rightarrow> world \<Rightarrow> File \<Rightarrow> File list \<times> App \<Rightarrow> File list \<times> App" where
  "checkFile en w file st =
     (let (fs, a) = st;
          (dir, a1) = appDirectory en a;
          localFilePath = Join [dir, LocalFile file] in
      if \<not> fileExists en w localFilePath then
        (fs @ [file], Log (Infof ''File %s does not exist'' [S localFilePath]) a1)
      else
        (case sha256Sum en localFilePath w of
           Inl e \<Rightarrow> (fs, Log (Errorf (''Error reading local file: %s'' @ [CHR 0x0A]) [E e]) a1)
         | Inr localHash \<Rightarrow>
             if localHash \<noteq> UnpackedHash file then
               (fs @ [file],
                Log (Infof ''File %s has changed (local: %s, remote: %s)''
                       [S localFilePath, S localHash, S (UnpackedHash file)]) a1)
             else (fs, a1)))"

text \<open>
  \<open>filesToUpdate\<close> starts one goroutine per entry and waits for all of them. The
  appends to \<open>files\<close> are serialised by the mutex, in an order the scheduler
  chooses: \<open>sched\<close> lists the indices of the entries in that order (a permutation
  of \<open>[0..<n]\<close> for \<open>n\<close> entries). The second component is the \<open>error\<close> result.
\<close>

definition filesToUpdate ::
  "env \<Rightarrow> nat list \<Rightarrow> App \<times> world \<Rightarrow> (File list \<times> error option) \<times> App" where
  "filesToUpdate en sched aw =
     (let (a, w) = aw;
          filesTocheck = AssetsInfo_Files (assetsInfo a) @ ClientInfo_Files (clientInfo a);
          (fs, a1) = foldl (\<lambda>st i. if i < length filesTocheck
                                       then checkFile en w (filesTocheck ! i) st else st)
                           ([], a) sched
      in ((fs, None), a1))"

section \<open>Notions of the statements and example values\<close>

text \<open>The notions that the theorems below are stated with, and the concrete states and
  environments at which they are instantiated.\<close>

definition app0 :: App where
  "app0 = \<lparr>logger = [], baseURL = ''https://example.org/cfg/'', appName = ''launcher'',
      clientInfo = \<lparr>ClientInfo_Revision = 0, ClientInfo_Version = [], ClientInfo_Files = [],
        ClientInfo_Executable = [], ClientInfo_Generation = [], ClientInfo_Variant = []\<rparr>,
      assetsInfo = \<lparr>AssetsInfo_Files = [], AssetsInfo_Version = 0\<rparr>,
      totalBytes = 0, totalFiles = 0, downloadedBytes = 0, downloadedFiles = 0\<rparr>"

text \<open>The chunks of the body of the answer to a request (none when the request failed).\<close>

definition bodyChunks :: "error + response \<Rightarrow> bytes list" where
  "bodyChunks r = (case r of Inl e \<Rightarrow> [] | Inr resp \<Rightarrow> chunks (Body resp))"

definition world0 :: world where
  "world0 = \<lparr>files = Map.empty, dirs = {}, requests = []\<rparr>"

text \<open>An environment in which nothing can be fetched: every request fails, no system
  call fails, and nothing parses.\<close>

definition env0 :: env where
  "env0 = \<lparr>GOOS = ''linux'', UserConfigDir = Inr ''/home/u/.config'', TempDir = ''/tmp'',
      httpGet = (\<lambda>n url. Inl (LibError ''no such host'')),
      fault = (\<lambda>s w. None),
      zipRead = (\<lambda>b. Inl (LibError ''zip: not a valid zip file'')),
      lzmaRead = (\<lambda>r. \<lparr>hdrReads = 0, hdrErr = Some (LibError ''lzma: invalid header''),
                          steps = [], endReads = 0, endErr = None\<rparr>),
      jsonClient = (\<lambda>b d. (Some (LibError ''unexpected end of JSON input''), d)),
      jsonAssets = (\<lambda>b d. (Some (LibError ''unexpected end of JSON input''), d)),
      sha256hex = (\<lambda>b. b)\<rparr>"

definition notFound :: response where
  "notFound = \<lparr>StatusCode = 404, ContentLength = 9,
      Body = \<lparr>chunks = [''Not Found''], readErr = None\<rparr>\<rparr>"

text \<open>A server that answers 200 without a declared length and breaks the connection
  after seven bytes.\<close>

definition cutOff :: response where
  "cutOff = \<lparr>StatusCode = 200, ContentLength = - 1,
      Body = \<lparr>chunks = [''abc'', ''defg''], readErr = Some (LibError ''unexpected EOF'')\<rparr>\<rparr>"

definition env404 :: env where
  "env404 = env0\<lparr>httpGet := (\<lambda>n url. Inr notFound)\<rparr>"

definition envCut :: env where
  "envCut = env0\<lparr>httpGet := (\<lambda>n url. Inr cutOff)\<rparr>"

text \<open>A state in which the done byte counter exceeds the total by one byte, just above
  \<open>2 ^ 53\<close>; and the state that an archive download leaves when the server declares
  no content length.\<close>

definition tied :: App where
  "tied = app0\<lparr>totalBytes := 9007199254740992, downloadedBytes := 9007199254740993\<rparr>"

definition envNoLength :: env where
  "envNoLength = env0\<lparr>httpGet := (\<lambda>n url. Inr (cutOff\<lparr>Body := \<lparr>chunks = [''abc'', ''defg''], readErr = None\<rparr>\<rparr>))\<rparr>"

definition afterNoLength :: App where
  "afterNoLength = fst (snd (downloadZip envNoLength ''https://example.org/cfg/client.zip'' ''client'' True
     (app0, world0)))"

definition localPath :: "env \<Rightarrow> App \<Rightarrow> File \<Rightarrow> path" where
  "localPath en a file = Join [fst (appDirectory en a), LocalFile file]"

definition planned :: "env \<Rightarrow> App \<times> world \<Rightarrow> File \<Rightarrow> bool" where
  "planned en aw file =
     (\<not> fileExists en (snd aw) (localPath en (fst aw) file) \<or>
      (case sha256Sum en (localPath en (fst aw) file) (snd aw) of
         Inl e \<Rightarrow> False
       | Inr h \<Rightarrow> h \<noteq> UnpackedHash file))"

definition fA :: File where
  "fA = \<lparr>LocalFile = ''data/a.bin'', PackedHash = ''p1'', PackedSize = 2, URL = ''a.bin.lzma'',
          UnpackedHash = ''aaa'', UnpackedSize = 3\<rparr>"

definition fB :: File where
  "fB = \<lparr>LocalFile = ''data/b.bin'', PackedHash = ''p2'', PackedSize = 2, URL = ''b.bin.lzma'',
          UnpackedHash = ''bbb'', UnpackedSize = 3\<rparr>"

definition fC :: File where
  "fC = \<lparr>LocalFile = ''init.lua'', PackedHash = ''p3'', PackedSize = 2, URL = ''init.lua.lzma'',
          UnpackedHash = ''ccc'', UnpackedSize = 3\<rparr>"

definition app1 :: App where
  "app1 = app0\<lparr>assetsInfo := \<lparr>AssetsInfo_Files = [fA, fB], AssetsInfo_Version = 1\<rparr>,
               clientInfo := (clientInfo app0)\<lparr>ClientInfo_Files := [fC]\<rparr>\<rparr>"

definition world1 :: world where
  "world1 = world0\<lparr>files := [''/home/u/.config/launcher/data/a.bin'' \<mapsto> ''aaa'',
                               ''/home/u/.config/launcher/data/b.bin'' \<mapsto> ''old'']\<rparr>"

definition envBadDisk :: env where
  "envBadDisk = env0\<lparr>fault := (\<lambda>s w. if s = SysRead ''/home/u/.config/launcher/data/a.bin''
                                     then Some (LibError ''input/output error'') else None)\<rparr>"

definition versionURL :: "App \<Rightarrow> string" where
  "versionURL a = baseURL a @ ''client_version.txt''"

definition versionPath :: "env \<Rightarrow> App \<Rightarrow> path" where
  "versionPath en a = Join [fst (appDirectory en a), ''client_version.txt'']"

definition release :: "string \<Rightarrow> error + response" where
  "release url =
     (if url = ''https://example.org/cfg/client_download_url.txt'' then
        Inr \<lparr>StatusCode = 200, ContentLength = 40,
             Body = \<lparr>chunks = [''https://example.org/releases/client.zip'' @ [CHR 0x0A]], readErr = None\<rparr>\<rparr>
      else if url = ''https://example.org/releases/client.zip'' then
        Inr \<lparr>StatusCode = 200, ContentLength = 8,
             Body = \<lparr>chunks = [''PK'', ''archive''], readErr = None\<rparr>\<rparr>
      else if url = ''https://example.org/cfg/client_version.txt'' then
        Inr \<lparr>StatusCode = 200, ContentLength = 6,
             Body = \<lparr>chunks = [''2.3.1'' @ [CHR 0x0A]], readErr = None\<rparr>\<rparr>
      else Inl (LibError ''no such host''))"

definition clientZip :: "zipFile list" where
  "clientZip =
     [\<lparr>Name = ''client/'', IsDir = True, Open = Inr \<lparr>chunks = [], readErr = None\<rparr>\<rparr>,
      \<lparr>Name = ''client/init.lua'', IsDir = False,
       Open = Inr \<lparr>chunks = [''print(1)''], readErr = None\<rparr>\<rparr>,
      \<lparr>Name = ''client/data/things.dat'', IsDir = False,
       Open = Inr \<lparr>chunks = [''abc'', ''def''], readErr = None\<rparr>\<rparr>]"

definition envRelease :: env where
  "envRelease = env0\<lparr>httpGet := (\<lambda>n. release), zipRead := (\<lambda>b. Inr clientZip)\<rparr>"

definition worldOld :: world where
  "worldOld = world0\<lparr>files := [''/home/u/.config/launcher/client_version.txt'' \<mapsto> ''2.3.0'']\<rparr>"

definition clientURL :: "env \<Rightarrow> App \<Rightarrow> string" where
  "clientURL en a = baseURL a @ remoteClientJSON en"

definition assetsURL :: "env \<Rightarrow> App \<Rightarrow> string" where
  "assetsURL en a = baseURL a @ remoteAssetsJSON en"

definition manifestPath :: "env \<Rightarrow> App \<Rightarrow> string \<Rightarrow> path" where
  "manifestPath en a name = Join [fst (appDirectory en a), name]"

definition afterClient :: "env \<Rightarrow> App \<times> world \<Rightarrow> world" where
  "afterClient en aw =
     snd (snd (downloadFile en (clientURL en (fst aw)) ''client.json'' False aw))"

definition afterAssets :: "env \<Rightarrow> App \<times> world \<Rightarrow> world" where
  "afterAssets en aw =
     snd (snd (downloadFile en (assetsURL en (fst aw)) ''assets.json'' False
                 (fst aw, afterClient en aw)))"

text \<open>The request of a download gets no answer with status 200.\<close>

definition requestFails :: "env \<Rightarrow> world \<Rightarrow> string \<Rightarrow> bool" where
  "requestFails en w url =
     (case httpGet en (length (requests w)) url of
        Inl e \<Rightarrow> True
      | Inr resp \<Rightarrow> StatusCode resp \<noteq> 200)"

definition staleJSON :: bytes where
  "staleJSON = ''{'' @ [CHR 0x22] @ ''revision'' @ [CHR 0x22] @ '':7}''"

definition envStale :: env where
  "envStale = env0\<lparr>
     fault := (\<lambda>s w. if s = SysCreate ''/home/u/.config/launcher/client.json''
                      then Some (LibError ''permission denied'') else None),
     jsonClient := (\<lambda>b d. if b = staleJSON then (None, d\<lparr>ClientInfo_Revision := 7\<rparr>)
                           else (Some (LibError ''unexpected end of JSON input''), d))\<rparr>"

definition worldStale :: world where
  "worldStale = world0\<lparr>files := [''/home/u/.config/launcher/client.json'' \<mapsto> staleJSON]\<rparr>"

definition assetsJSON :: bytes where
  "assetsJSON = ''{'' @ [CHR 0x22] @ ''version'' @ [CHR 0x22] @ '':2}''"

definition envHalf :: env where
  "envHalf = env0\<lparr>
     httpGet := (\<lambda>n url. if url = ''https://example.org/cfg/assets.linux.json''
                  then Inr \<lparr>StatusCode = 200, ContentLength = 13,
                            Body = \<lparr>chunks = [assetsJSON], readErr = None\<rparr>\<rparr>
                  else Inr notFound),
     jsonAssets := (\<lambda>b d. if b = assetsJSON then (None, d\<lparr>AssetsInfo_Version := 2\<rparr>)
                           else (Some (LibError ''unexpected end of JSON input''), d))\<rparr>"

text \<open>
  The number of chunks that \<open>io.Copy\<close> reads from its source before it returns: every
  chunk up to and including the first one whose write fails, all of them when no
  write fails.
\<close>

fun io_Copy_reads :: "env \<Rightarrow> path \<Rightarrow> bytes list \<Rightarrow> world \<Rightarrow> nat" where
  "io_Copy_reads en out [] w = 0"
| "io_Copy_reads en out (c # cs) w =
     (case os_Write en out c w of
        (Some e, w') \<Rightarrow> 1
      | (None, w') \<Rightarrow> 1 + io_Copy_reads en out cs w')"

text \<open>
  The number of chunks of the body that the LZMA reader has read when the copy of
  \<open>downloadFile\<close> returns: the reads of every step up to and including the first one
  whose write fails, and the reads at the end when no write fails (a read past the
  end of the body yields no chunk).
\<close>

fun lzma_Copy_reads :: "env \<Rightarrow> path \<Rightarrow> (nat \<times> bytes) list \<Rightarrow> nat \<Rightarrow> bytes list \<Rightarrow> world \<Rightarrow> nat" where
  "lzma_Copy_reads en out [] endN cs w = min endN (length cs)"
| "lzma_Copy_reads en out ((n, c) # ss) endN cs w =
     (case os_Write en out c w of
        (Some e, w') \<Rightarrow> min n (length cs)
      | (None, w') \<Rightarrow> min n (length cs) + lzma_Copy_reads en out ss endN (drop n cs) w')"

text \<open>
  The chunks of the response body that a transfer has read when it returns, in the
  order read. With \<open>progress\<close> set each of them went through the \<open>io.TeeReader\<close>, that
  is through \<open>App.Write\<close>, when it was read. Nothing is read when the transfer
  fails before the body: at the directory, the file, the request or the status.
\<close>

definition downloadFile_streamed :: "env \<Rightarrow> string \<Rightarrow> string \<Rightarrow> App \<times> world \<Rightarrow> bytes list" where
  "downloadFile_streamed en url dst0 aw =
     (let dst = Join [fst (appDirectory en (fst aw)), dst0] in
      case os_MkdirAll en (Dir dst) (snd aw) of
        (Some e, w1) \<Rightarrow> []
      | (None, w1) \<Rightarrow>
          (case os_Create en dst w1 of
             (Some e, w2) \<Rightarrow> []
           | (None, w2) \<Rightarrow>
               (case http_Get en url w2 of
                  (Inl e, w3) \<Rightarrow> []
                | (Inr resp, w3) \<Rightarrow>
                    if StatusCode resp \<noteq> 200 then []
                    else if Ext dst \<noteq> ''.lzma'' \<and> Ext url = ''.lzma'' then
                      (let plan = lzmaRead en (Body resp) in
                       case hdrErr plan of
                         Some e \<Rightarrow> take (hdrReads plan) (chunks (Body resp))
                       | None \<Rightarrow>
                           take (hdrReads plan
                                   + lzma_Copy_reads en dst (steps plan) (endReads plan)
                                       (drop (hdrReads plan) (chunks (Body resp))) w3)
                                (chunks (Body resp)))
                    else take (io_Copy_reads en dst (chunks (Body resp)) w3) (chunks (Body resp)))))"

definition downloadZip_streamed :: "env \<Rightarrow> string \<Rightarrow> string \<Rightarrow> App \<times> world \<Rightarrow> bytes list" where
  "downloadZip_streamed en url targetFolder aw =
     (case os_MkdirAll en (Join [fst (appDirectory en (fst aw)), targetFolder]) (snd aw) of
        (Some e, w1) \<Rightarrow> []
      | (None, w1) \<Rightarrow>
          (case os_Create en (Join [TempDir en, ''nordemon_download.zip'']) w1 of
             (Some e, w2) \<Rightarrow> []
           | (None, w2) \<Rightarrow>
               (case http_Get en url w2 of
                  (Inl e, w3) \<Rightarrow> []
                | (Inr resp, w3) \<Rightarrow>
                    if StatusCode resp \<noteq> 200 then []
                    else take (io_Copy_reads en (Join [TempDir en, ''nordemon_download.zip''])
                                 (chunks (Body resp)) w3)
                              (chunks (Body resp)))))"

text \<open>A disk that takes three bytes of a file and no more, and a server that sends the
  body in three chunks.\<close>

definition envDiskFull :: env where
  "envDiskFull = env0\<lparr>
     httpGet := (\<lambda>n url. Inr \<lparr>StatusCode = 200, ContentLength = 9,
                   Body = \<lparr>chunks = [''abc'', ''defg'', ''hi''], readErr = None\<rparr>\<rparr>),
     fault := (\<lambda>s w. case s of
                 SysWrite q \<Rightarrow> (if files w q = Some ''abc''
                                then Some (LibError ''no space left on device'') else None)
               | _ \<Rightarrow> None)\<rparr>"

text \<open>The entries of the archive at \<open>src\<close>, as \<open>unzipToFolder\<close> gets them from
  \<open>zip.OpenReader\<close>; there are none when the file cannot be read or is not an archive.\<close>

definition archive :: "env \<Rightarrow> path \<Rightarrow> world \<Rightarrow> zipFile list" where
  "archive en src w =
     (case os_ReadFile en src w of
        Inl e \<Rightarrow> []
      | Inr b \<Rightarrow> (case zipRead en b of Inl e \<Rightarrow> [] | Inr r \<Rightarrow> r))"








definition worldZip :: world where
  "worldZip = world0\<lparr>files := [''/tmp/client.zip'' \<mapsto> ''PK'']\<rparr>"

text \<open>The first path segment of an entry name: what precedes its first slash.\<close>

definition firstSegment :: "string \<Rightarrow> string" where
  "firstSegment name = hd (Split name CHR ''/'')"

text \<open>The path at which \<open>unzipToFolder\<close> puts an entry of the archive at \<open>src\<close>, or
  \<open>None\<close> when it skips the entry: the target path of the second loop, for the root
  folder that the first loop has found.\<close>

definition entryPath :: "env \<Rightarrow> path \<Rightarrow> path \<Rightarrow> world \<Rightarrow> zipFile \<Rightarrow> path option" where
  "entryPath en src dst w f = extractTarget dst (rootFolderScan [] (archive en src w)) f"

text \<open>Archives: a wrapper directory \<open>pkg\<close>, two top-level directories, a single file,
  and an entry with an absolute name before one in a directory.\<close>

definition pkgZip :: "zipFile list" where
  "pkgZip =
     [\<lparr>Name = ''pkg/'', IsDir = True, Open = Inr \<lparr>chunks = [], readErr = None\<rparr>\<rparr>,
      \<lparr>Name = ''pkg/init.lua'', IsDir = False, Open = Inr \<lparr>chunks = [''print(1)''], readErr = None\<rparr>\<rparr>,
      \<lparr>Name = ''pkg/data/'', IsDir = True, Open = Inr \<lparr>chunks = [], readErr = None\<rparr>\<rparr>,
      \<lparr>Name = ''pkg/data/x.dat'', IsDir = False, Open = Inr \<lparr>chunks = [''ab'', ''cd''], readErr = None\<rparr>\<rparr>]"

definition twoZip :: "zipFile list" where
  "twoZip =
     [\<lparr>Name = ''bin/run.sh'', IsDir = False, Open = Inr \<lparr>chunks = [''#!''], readErr = None\<rparr>\<rparr>,
      \<lparr>Name = ''lib/a.so'', IsDir = False, Open = Inr \<lparr>chunks = [''ELF''], readErr = None\<rparr>\<rparr>]"

definition singleZip :: "zipFile list" where
  "singleZip =
     [\<lparr>Name = ''readme.txt'', IsDir = False, Open = Inr \<lparr>chunks = [''hello''], readErr = None\<rparr>\<rparr>]"

definition slashZip :: "zipFile list" where
  "slashZip =
     [\<lparr>Name = ''/a.txt'', IsDir = False, Open = Inr \<lparr>chunks = [''a''], readErr = None\<rparr>\<rparr>,
      \<lparr>Name = ''b/c.txt'', IsDir = False, Open = Inr \<lparr>chunks = [''c''], readErr = None\<rparr>\<rparr>]"

definition envZip :: "zipFile list \<Rightarrow> env" where
  "envZip fs = env0\<lparr>zipRead := (\<lambda>b. Inr fs)\<rparr>"

section \<open>Properties\<close>

subsection \<open>Rounding to float64\<close>

lemma bitLen_0: "bitLen 0 = 0" by (subst bitLen.simps) simp
lemma bitLen_pos: "0 < n \<Longrightarrow> bitLen n = Suc (bitLen (n div 2))" by (subst bitLen.simps) simp
lemma bitLen_1: "bitLen (Suc 0) = Suc 0" by (simp add: bitLen_pos bitLen_0)

lemma bitLen_bounds: "0 < n \<Longrightarrow> 2 ^ (bitLen n - 1) \<le> n \<and> n < 2 ^ bitLen n"
proof (induction n rule: bitLen.induct)
  case (1 n)
  show ?case
  proof (cases "n div 2 = 0")
    case True
    with "1.prems" have "n = Suc 0" by (simp add: div_eq_0_iff) 
    then show ?thesis by (simp add: bitLen_1)
  next
    case False
    then have pos: "0 < n div 2" by simp
    from "1.IH" "1.prems" pos have IH: "2 ^ (bitLen (n div 2) - 1) \<le> n div 2" "n div 2 < 2 ^ bitLen (n div 2)"
      by auto
    have bl: "bitLen n = Suc (bitLen (n div 2))" using "1.prems" by (rule bitLen_pos)
    have bpos: "0 < bitLen (n div 2)" using pos by (simp add: bitLen_pos)
    have "2 ^ (bitLen n - 1) = 2 * 2 ^ (bitLen (n div 2) - 1)"
      using bl bpos by (cases "bitLen (n div 2)") auto
    also have "\<dots> \<le> 2 * (n div 2)" using IH(1) by simp
    also have "\<dots> \<le> n" by simp
    finally have lo: "2 ^ (bitLen n - 1) \<le> n" .
    have "n < 2 * (n div 2) + 2" by presburger
    also have "\<dots> \<le> 2 * 2 ^ bitLen (n div 2)" using IH(2) by simp
    finally have "n < 2 ^ bitLen n" using bl by simp
    with lo show ?thesis by simp
  qed
qed

lemma exponent_bounds:
  assumes "0 < x"
  shows "2 powi (exponent x) \<le> x" and "x < 2 powi (exponent x + 1)"
proof -
  obtain p q where pq: "quotient_of x = (p, q)" by (cases "quotient_of x")
  have qpos: "0 < q" using quotient_of_denom_pos[OF pq] .
  have xeq: "x = of_int p / of_int q" using quotient_of_div[OF pq] .
  have ppos: "0 < p" using assms qpos xeq by (simp add: zero_less_divide_iff)
  define bp where "bp = bitLen (nat p)"
  define bq where "bq = bitLen (nat q)"
  define k where "k = int bp - int bq"
  have bP: "2 ^ (bp - 1) \<le> nat p" "nat p < 2 ^ bp"
    using bitLen_bounds[of "nat p"] ppos by (auto simp: bp_def)
  have bQ: "2 ^ (bq - 1) \<le> nat q" "nat q < 2 ^ bq"
    using bitLen_bounds[of "nat q"] qpos by (auto simp: bq_def)
  have bp1: "1 \<le> bp" using bP(2) ppos by (cases bp) auto
  have bq1: "1 \<le> bq" using bQ(2) qpos by (cases bq) auto
  have P1: "(2::rat) ^ (bp - 1) \<le> of_int p"
  proof -
    have "(of_nat (2 ^ (bp - 1)) :: rat) \<le> of_nat (nat p)" using bP(1) by (rule iffD2[OF of_nat_le_iff])
    then show ?thesis using ppos by simp
  qed
  have P2: "(of_int p :: rat) < 2 ^ bp"
  proof -
    have "(of_nat (nat p) :: rat) < of_nat (2 ^ bp)" using bP(2) by (rule iffD2[OF of_nat_less_iff])
    then show ?thesis using ppos by simp
  qed
  have Q1: "(2::rat) ^ (bq - 1) \<le> of_int q"
  proof -
    have "(of_nat (2 ^ (bq - 1)) :: rat) \<le> of_nat (nat q)" using bQ(1) by (rule iffD2[OF of_nat_le_iff])
    then show ?thesis using qpos by simp
  qed
  have Q2: "(of_int q :: rat) < 2 ^ bq"
  proof -
    have "(of_nat (nat q) :: rat) < of_nat (2 ^ bq)" using bQ(2) by (rule iffD2[OF of_nat_less_iff])
    then show ?thesis using qpos by simp
  qed
  have qr: "(0::rat) < of_int q" using qpos by simp
  have ex: "exponent x = (if 2 powi k \<le> x then k else k - 1)"
    by (simp add: exponent_def pq k_def bp_def bq_def Let_def)
  have lowk: "(2::rat) powi (k - 1) \<le> x"
  proof -
    have "k - 1 = int (bp - 1) - int bq" using bp1 by (simp add: k_def)
    then have "(2::rat) powi (k - 1) = 2 powi int (bp - 1) / 2 powi int bq"
      by (simp only: power_int_diff[of "2::rat", simplified])
    then have "(2::rat) powi (k - 1) = 2 ^ (bp - 1) / 2 ^ bq"
      by (simp only: power_int_of_nat)
    also have "\<dots> \<le> of_int p / 2 ^ bq" using P1 by (simp add: divide_right_mono)
    also have "\<dots> \<le> of_int p / of_int q" using Q2 qr ppos by (simp add: frac_le)
    finally show ?thesis using xeq by simp
  qed
  have upk: "x < (2::rat) powi (k + 1)"
  proof -
    have "x = of_int p / of_int q" by (rule xeq)
    also have "\<dots> < 2 ^ bp / of_int q" using P2 qr by (simp add: divide_strict_right_mono)
    also have "\<dots> \<le> 2 ^ bp / 2 ^ (bq - 1)" using Q1 by (simp add: frac_le)
    finally have lt: "x < 2 ^ bp / 2 ^ (bq - 1)" .
    have "k + 1 = int bp - int (bq - 1)" using bq1 by (simp add: k_def)
    then have "(2::rat) powi (k + 1) = 2 powi int bp / 2 powi int (bq - 1)"
      by (simp only: power_int_diff[of "2::rat", simplified])
    then have "(2::rat) powi (k + 1) = 2 ^ bp / 2 ^ (bq - 1)"
      by (simp only: power_int_of_nat)
    with lt show ?thesis by simp
  qed
  show "2 powi (exponent x) \<le> x" using ex lowk by (auto split: if_splits)
  show "x < 2 powi (exponent x + 1)" using ex upk by (auto split: if_splits simp: not_le)
qed

lemma roundEven_cases: "roundEven m = \<lfloor>m\<rfloor> \<or> roundEven m = \<lfloor>m\<rfloor> + 1"
  by (simp add: roundEven_def Let_def)

lemma roundEven_of_int: "roundEven (of_int k) = k"
  by (simp add: roundEven_def Let_def)

lemma roundEven_ge: "of_int k \<le> m \<Longrightarrow> k \<le> roundEven m"
proof -
  assume "of_int k \<le> m"
  then have "k \<le> \<lfloor>m\<rfloor>" by (simp add: le_floor_iff)
  then show ?thesis using roundEven_cases[of m] by auto
qed

lemma roundEven_le: "m \<le> of_int k \<Longrightarrow> roundEven m \<le> k"
proof (cases "m = of_int k")
  case True
  then show ?thesis by (simp add: roundEven_of_int)
next
  case False
  assume "m \<le> of_int k"
  with False have "m < of_int k" by simp
  then have "\<lfloor>m\<rfloor> < k" by (simp add: floor_less_iff)
  then show ?thesis using roundEven_cases[of m] by auto
qed

lemma roundEven_mono: "m \<le> n \<Longrightarrow> roundEven m \<le> roundEven n"
proof -
  assume mn: "m \<le> n"
  then have fl: "\<lfloor>m\<rfloor> \<le> \<lfloor>n\<rfloor>" by (rule floor_mono)
  show ?thesis
  proof (cases "\<lfloor>m\<rfloor> = \<lfloor>n\<rfloor>")
    case True
    then have "m - of_int \<lfloor>m\<rfloor> \<le> n - of_int \<lfloor>n\<rfloor>" using mn by simp
    then show ?thesis using True by (auto simp: roundEven_def Let_def)
  next
    case False
    with fl have "\<lfloor>m\<rfloor> + 1 \<le> \<lfloor>n\<rfloor>" by simp
    moreover have "roundEven m \<le> \<lfloor>m\<rfloor> + 1" using roundEven_cases[of m] by auto
    moreover have "\<lfloor>n\<rfloor> \<le> roundEven n" using roundEven_cases[of n] by auto
    ultimately show ?thesis by linarith
  qed
qed

lemma pow2_pos: "(0::rat) < 2 powi k"
  by (simp add: zero_less_power_int)

lemma pow2_split: "(2::rat) powi e = 2 ^ 52 * 2 powi (e - 52)"
proof -
  have "(2::rat) powi e = 2 powi (52 + (e - 52))" by simp
  also have "\<dots> = 2 powi 52 * 2 powi (e - 52)" by (rule power_int_add) simp
  also have "(2::rat) powi 52 = 2 ^ 52" using power_int_of_nat[of "2::rat" 52] by simp
  finally show ?thesis .
qed

lemma round64_pos_eq:
  "0 < x \<Longrightarrow> round64 x = of_int (roundEven (x / 2 powi (exponent x - 52))) * 2 powi (exponent x - 52)"
  by (simp add: round64_def Let_def)

lemma round64_minus: "round64 (- x) = - round64 x"
  by (simp add: round64_def Let_def sgn_minus)

lemma round64_bounds:
  assumes "0 < x"
  shows "2 powi (exponent x) \<le> round64 x" and "round64 x \<le> 2 powi (exponent x + 1)"
proof -
  define e where "e = exponent x"
  define u where "u = (2::rat) powi (e - 52)"
  have upos: "0 < u" by (simp add: u_def pow2_pos)
  have lo: "2 powi e \<le> x" and hi: "x < 2 powi (e + 1)"
    using exponent_bounds[OF assms] by (simp_all add: e_def)
  have e1: "(2::rat) powi e = 2 ^ 52 * u" unfolding u_def by (rule pow2_split)
  have e2: "(2::rat) powi (e + 1) = 2 ^ 53 * u"
    using pow2_split[of "e + 1"] pow2_split[of e] by (simp add: u_def power_int_add)
  have "of_int (2 ^ 52) \<le> x / u" using lo e1 upos by (simp add: pos_le_divide_eq)
  then have r1: "2 ^ 52 \<le> roundEven (x / u)" by (rule roundEven_ge)
  have "x / u \<le> of_int (2 ^ 53)" using hi e2 upos by (simp add: pos_divide_le_eq)
  then have r2: "roundEven (x / u) \<le> 2 ^ 53" by (rule roundEven_le)
  have req: "round64 x = of_int (roundEven (x / u)) * u"
    using round64_pos_eq[OF assms] by (simp add: u_def e_def)
  have "(2::rat) ^ 52 * u \<le> of_int (roundEven (x / u)) * u"
  proof (rule mult_right_mono)
    have "(of_int (2 ^ 52) :: rat) \<le> of_int (roundEven (x / u))" using r1 by (simp only: of_int_le_iff)
    then show "(2::rat) ^ 52 \<le> of_int (roundEven (x / u))" by simp
    show "0 \<le> u" using upos by simp
  qed
  then show "2 powi (exponent x) \<le> round64 x" using req e1 by (simp add: e_def)
  have "of_int (roundEven (x / u)) * u \<le> (2::rat) ^ 53 * u"
  proof (rule mult_right_mono)
    have "(of_int (roundEven (x / u)) :: rat) \<le> of_int (2 ^ 53)" using r2 by (simp only: of_int_le_iff)
    then show "of_int (roundEven (x / u)) \<le> (2::rat) ^ 53" by simp
    show "0 \<le> u" using upos by simp
  qed
  then show "round64 x \<le> 2 powi (exponent x + 1)" using req e2 by (simp add: e_def)
qed

lemma round64_pos: "0 < x \<Longrightarrow> 0 < round64 x"
  using round64_bounds(1)[of x] pow2_pos[of "exponent x"] by linarith

lemma round64_neg: "x < 0 \<Longrightarrow> round64 x < 0"
  using round64_pos[of "- x"] by (simp add: round64_minus)



lemma exponent_mono:
  assumes "0 < x" "x \<le> y"
  shows "exponent x \<le> exponent y"
proof -
  have "2 powi (exponent x) \<le> x" using exponent_bounds(1)[OF assms(1)] .
  also have "x \<le> y" by fact
  also have "y < 2 powi (exponent y + 1)" using exponent_bounds(2)[of y] assms by simp
  finally have lt: "(2::rat) powi (exponent x) < 2 powi (exponent y + 1)" .
  have "exponent x < exponent y + 1"
  proof (rule ccontr)
    assume "\<not> exponent x < exponent y + 1"
    then have "exponent y + 1 \<le> exponent x" by simp
    then have "(2::rat) powi (exponent y + 1) \<le> 2 powi (exponent x)"
      by (rule power_int_increasing) simp
    with lt show False by simp
  qed
  then show ?thesis by simp
qed

lemma round64_mono_pos:
  assumes "0 < x" "x \<le> y"
  shows "round64 x \<le> round64 y"
proof -
  have ypos: "0 < y" using assms by simp
  have le: "exponent x \<le> exponent y" using exponent_mono[OF assms] .
  show ?thesis
  proof (cases "exponent x = exponent y")
    case True
    define u where "u = (2::rat) powi (exponent y - 52)"
    have upos: "0 < u" by (simp add: u_def pow2_pos)
    have "x / u \<le> y / u" using assms(2) upos by (simp add: divide_right_mono)
    then have "roundEven (x / u) \<le> roundEven (y / u)" by (rule roundEven_mono)
    then have "(of_int (roundEven (x / u)) :: rat) \<le> of_int (roundEven (y / u))" by (simp only: of_int_le_iff)
    then have "of_int (roundEven (x / u)) * u \<le> of_int (roundEven (y / u)) * u"
      using upos by (simp add: mult_right_mono)
    then show ?thesis
      using round64_pos_eq[OF assms(1)] round64_pos_eq[OF ypos] True by (simp add: u_def)
  next
    case False
    with le have "exponent x + 1 \<le> exponent y" by simp
    then have "(2::rat) powi (exponent x + 1) \<le> 2 powi (exponent y)"
      by (simp add: power_int_increasing)
    then show ?thesis
      using round64_bounds(2)[OF assms(1)] round64_bounds(1)[OF ypos] by linarith
  qed
qed

lemma round64_1: "round64 1 = 1" by code_simp
lemma round64_100: "round64 100 = 100" by code_simp


subsection \<open>Progress percentage\<close>



lemma roundEven_gt_half: "of_int k + 1 / 2 < m \<Longrightarrow> k + 1 \<le> roundEven m"
proof -
  assume h: "of_int k + 1 / 2 < m"
  then have "of_int k \<le> m" by simp
  then have fk: "k \<le> \<lfloor>m\<rfloor>" by (simp add: le_floor_iff)
  show ?thesis
  proof (cases "\<lfloor>m\<rfloor> = k")
    case True
    then have "1 / 2 < m - of_int \<lfloor>m\<rfloor>" using h by simp
    then show ?thesis using True by (simp add: roundEven_def Let_def)
  next
    case False
    with fk have "k + 1 \<le> \<lfloor>m\<rfloor>" by simp
    then show ?thesis using roundEven_cases[of m] by auto
  qed
qed

lemma exponent_unique:
  assumes "0 < x" "2 powi e \<le> x" "x < 2 powi (e + 1)"
  shows "exponent x = e"
proof -
  have lo: "2 powi (exponent x) \<le> x" and hi: "x < 2 powi (exponent x + 1)"
    using exponent_bounds[OF assms(1)] by simp_all
  have "\<not> exponent x + 1 \<le> e"
  proof
    assume "exponent x + 1 \<le> e"
    then have "(2::rat) powi (exponent x + 1) \<le> 2 powi e" by (rule power_int_increasing) simp
    with hi assms(2) show False by linarith
  qed
  moreover have "\<not> e + 1 \<le> exponent x"
  proof
    assume "e + 1 \<le> exponent x"
    then have "(2::rat) powi (e + 1) \<le> 2 powi (exponent x)" by (rule power_int_increasing) simp
    with lo assms(3) show False by linarith
  qed
  ultimately show ?thesis by linarith
qed

lemma exponent_1: "exponent 1 = 0"
  by (rule exponent_unique) simp_all

lemma round64_2p53: "round64 (2 ^ 53) = 2 ^ 53"
proof -
  have e: "exponent 9007199254740992 = 53" by (rule exponent_unique) simp_all
  have "round64 9007199254740992 = 9007199254740992"
    by (simp add: round64_pos_eq e roundEven_def Let_def)
  then show ?thesis by simp
qed

lemma round64_2p53_1: "round64 9007199254740993 = 9007199254740992"
proof -
  have e: "exponent 9007199254740993 = 53" by (rule exponent_unique) simp_all
  have f: "\<lfloor>9007199254740993 / 2 :: rat\<rfloor> = 4503599627370496"
    by (rule floor_unique) simp_all
  have r: "roundEven (9007199254740993 / 2) = 4503599627370496"
    by (simp add: roundEven_def Let_def f)
  show ?thesis by (simp add: round64_pos_eq e r)
qed

lemma round64_above_100: "100 < round64 (100 * (1 + 1 / 2 ^ 52))"
proof -
  have e: "exponent (100 * (1 + 1 / 2 ^ 52)) = 6" by (rule exponent_unique) simp_all
  have p: "(2::rat) powi (- 46) = 1 / 2 ^ 46"
    using power_int_minus[of "2::rat" 46] by (simp add: inverse_eq_divide)
  have "of_int (100 * 2 ^ 46 + 1) + 1 / 2 < (100 * (1 + 1 / 2 ^ 52) :: rat) * 2 ^ 46" by simp
  then have "100 * 2 ^ 46 + 1 + 1 \<le> roundEven ((100 * (1 + 1 / 2 ^ 52)) * 2 ^ 46)"
    by (rule roundEven_gt_half)
  then have "(of_int (100 * 2 ^ 46 + 1 + 1) :: rat) \<le> of_int (roundEven ((100 * (1 + 1 / 2 ^ 52)) * 2 ^ 46))"
    by (simp only: of_int_le_iff)
  then have "(100 * 2 ^ 46 + 2) / 2 ^ 46 \<le> (of_int (roundEven ((100 * (1 + 1 / 2 ^ 52)) * 2 ^ 46)) :: rat) / 2 ^ 46"
    by (simp add: divide_right_mono)
  moreover have "round64 (100 * (1 + 1 / 2 ^ 52)) = of_int (roundEven ((100 * (1 + 1 / 2 ^ 52)) * 2 ^ 46)) / 2 ^ 46"
    using round64_pos_eq[of "100 * (1 + 1 / 2 ^ 52)"] e p by simp
  moreover have "(100::rat) < (100 * 2 ^ 46 + 2) / 2 ^ 46" by simp
  ultimately show ?thesis by linarith
qed

lemma round64_m1: "round64 (- 1) = - 1"
  using round64_minus[of 1] round64_1 by simp

lemma exponent_le_53:
  assumes "0 < x" "x \<le> 2 ^ 53"
  shows "exponent x \<le> 53"
proof (rule ccontr)
  assume "\<not> exponent x \<le> 53"
  then have "54 \<le> exponent x" by simp
  then have "(2::rat) powi 54 \<le> 2 powi (exponent x)" by (rule power_int_increasing) simp
  also have "\<dots> \<le> x" using exponent_bounds(1)[OF assms(1)] .
  finally have "(2::rat) powi 54 \<le> 2 ^ 53" using assms(2) by simp
  moreover have "(2::rat) powi 54 = 2 ^ 54" using power_int_of_nat[of "2::rat" 54] by simp
  ultimately show False by simp
qed

lemma round64_of_int_exact:
  assumes "0 < n" "n \<le> 2 ^ 53"
  shows "round64 (of_int n) = of_int n"
proof -
  define x where "x = (of_int n :: rat)"
  have xpos: "0 < x" using assms(1) by (simp add: x_def)
  have xle: "x \<le> 2 ^ 53"
  proof -
    have "(of_int n :: rat) \<le> of_int (2 ^ 53)" using assms(2) by (simp only: of_int_le_iff)
    then show ?thesis by (simp add: x_def)
  qed
  define e where "e = exponent x"
  have e53: "e \<le> 53" using exponent_le_53[OF xpos xle] by (simp add: e_def)
  show ?thesis
  proof (cases "e = 53")
    case True
    have "(2::rat) powi 53 \<le> x" using exponent_bounds(1)[OF xpos] True by (simp add: e_def)
    moreover have "(2::rat) powi 53 = 2 ^ 53" using power_int_of_nat[of "2::rat" 53] by simp
    ultimately have "x = 2 ^ 53" using xle by simp
    then show ?thesis using round64_2p53 by (simp add: x_def)
  next
    case False
    with e53 have le: "e \<le> 52" by simp
    define j where "j = nat (52 - e)"
    define u where "u = (2::rat) powi (e - 52)"
    have upos: "0 < u" by (simp add: u_def pow2_pos)
    have "(2::rat) powi (e - 52) * 2 powi (52 - e) = 2 powi ((e - 52) + (52 - e))"
      by (rule power_int_add[symmetric]) simp
    then have inv: "u * 2 powi (52 - e) = 1" by (simp add: u_def)
    have "(2::rat) powi (52 - e) = 2 powi int j" using le by (simp add: j_def)
    then have pj: "(2::rat) powi (52 - e) = 2 ^ j" by (simp only: power_int_of_nat)
    have "x / u = x * 2 ^ j" using inv pj upos by (simp add: field_simps)
    then have "x / u = of_int (n * 2 ^ j)" by (simp add: x_def)
    then have "roundEven (x / u) = n * 2 ^ j" by (simp only: roundEven_of_int)
    then have "round64 x = of_int (n * 2 ^ j) * u"
      using round64_pos_eq[OF xpos] by (simp add: u_def e_def)
    also have "\<dots> = x * (u * 2 ^ j)" by (simp add: x_def)
    also have "\<dots> = x" using inv pj by simp
    finally show ?thesis by (simp add: x_def)
  qed
qed

lemma round64_gt_1:
  assumes "1 + 1 / 2 ^ 53 < q"
  shows "1 + 1 / 2 ^ 52 \<le> round64 q"
proof -
  have q1: "1 \<le> q"
  proof -
    have "(0::rat) < 1 / 2 ^ 53" by simp
    with assms show ?thesis by linarith
  qed
  have qpos: "0 < q" using q1 by simp
  have e0: "0 \<le> exponent q" using exponent_mono[of 1 q] q1 by (simp add: exponent_1)
  show ?thesis
  proof (cases "exponent q = 0")
    case True
    have "(2::rat) powi (- 52) = inverse (2 powi 52)" by (rule power_int_minus)
    moreover have "(2::rat) powi 52 = 2 ^ 52" using power_int_of_nat[of "2::rat" 52] by simp
    ultimately have "(2::rat) powi (- 52) = 1 / 2 ^ 52" by (simp only: inverse_eq_divide)
    then have u: "(2::rat) powi (exponent q - 52) = 1 / 2 ^ 52"
      using True by simp
    have "of_int (2 ^ 52) + 1 / 2 < q * 2 ^ 52"
    proof -
      have "(1 + 1 / 2 ^ 53) * 2 ^ 52 < q * (2 ^ 52 :: rat)"
        using assms by (rule mult_strict_right_mono) simp
      then show ?thesis by simp
    qed
    then have "2 ^ 52 + 1 \<le> roundEven (q * 2 ^ 52)" by (rule roundEven_gt_half)
    then have "(of_int (2 ^ 52 + 1) :: rat) \<le> of_int (roundEven (q * 2 ^ 52))"
      by (simp only: of_int_le_iff)
    then have "(2 ^ 52 + 1) / 2 ^ 52 \<le> (of_int (roundEven (q * 2 ^ 52)) :: rat) / 2 ^ 52"
      by (simp add: divide_right_mono)
    moreover have "round64 q = of_int (roundEven (q * 2 ^ 52)) / 2 ^ 52"
      using round64_pos_eq[OF qpos] u by simp
    ultimately show ?thesis by (simp add: add_divide_distrib)
  next
    case False
    with e0 have "1 \<le> exponent q" by simp
    then have "(2::rat) powi 1 \<le> 2 powi (exponent q)" by (rule power_int_increasing) simp
    then have "2 \<le> round64 q" using round64_bounds(1)[OF qpos] by simp
    moreover have "1 + 1 / 2 ^ 52 \<le> (2::rat)" by simp
    ultimately show ?thesis by linarith
  qed
qed

lemma float64_pos: "0 < sint n \<Longrightarrow> 0 < float64 n"
  unfolding float64_def by (rule round64_pos) (simp only: of_int_0_less_iff)

lemma float64_mono: "0 < sint t \<Longrightarrow> sint t \<le> sint d \<Longrightarrow> float64 t \<le> float64 d"
  unfolding float64_def by (rule round64_mono_pos) (simp_all only: of_int_0_less_iff of_int_le_iff)

lemma float64_exact: "0 < sint n \<Longrightarrow> sint n \<le> 2 ^ 53 \<Longrightarrow> float64 n = of_int (sint n)"
  unfolding float64_def by (rule round64_of_int_exact)

lemma percent_ge_100:
  assumes "0 < sint t" "sint t \<le> sint d"
  shows "100 \<le> fmul (fdiv (float64 d) (float64 t)) 100"
proof -
  have tp: "0 < float64 t" using assms(1) by (rule float64_pos)
  have "float64 t \<le> float64 d" using assms by (rule float64_mono)
  then have "1 \<le> float64 d / float64 t" using tp by (simp add: pos_le_divide_eq)
  then have "round64 1 \<le> round64 (float64 d / float64 t)" by (intro round64_mono_pos) simp_all
  then have q: "1 \<le> fdiv (float64 d) (float64 t)" by (simp add: fdiv_def round64_1)
  then have "100 \<le> fdiv (float64 d) (float64 t) * 100" by simp
  then have "round64 100 \<le> round64 (fdiv (float64 d) (float64 t) * 100)"
    by (intro round64_mono_pos) simp_all
  then show ?thesis by (simp add: fmul_def round64_100)
qed

lemma percent_gt_100:
  assumes "0 < sint t" "sint t < sint d" "sint d \<le> 2 ^ 53"
  shows "100 < fmul (fdiv (float64 d) (float64 t)) 100"
proof -
  define ti where "ti = sint t"
  define di where "di = sint d"
  have ft: "float64 t = of_int ti" unfolding ti_def using assms by (intro float64_exact) simp_all
  have fd: "float64 d = of_int di" unfolding di_def using assms by (intro float64_exact) simp_all
  have "0 < ti" using assms(1) by (simp only: ti_def)
  then have tpos: "(0::rat) < of_int ti" by (simp only: of_int_0_less_iff)
  have "ti + 1 \<le> di" using assms(2) by (simp add: ti_def di_def)
  then have "(of_int (ti + 1) :: rat) \<le> of_int di" by (simp only: of_int_le_iff)
  then have "(of_int ti + 1) / of_int ti \<le> (of_int di :: rat) / of_int ti"
    using tpos by (simp add: divide_right_mono)
  then have q1: "1 + 1 / of_int ti \<le> (of_int di :: rat) / of_int ti"
    using tpos by (simp add: add_divide_distrib)
  have "ti < 2 ^ 53" using assms by (simp add: ti_def)
  then have "(of_int ti :: rat) < of_int (2 ^ 53)" by (simp only: of_int_less_iff)
  then have "(of_int ti :: rat) < 2 ^ 53" by simp
  then have "1 / 2 ^ 53 < 1 / (of_int ti :: rat)" using tpos by (simp add: frac_less2)
  with q1 have "1 + 1 / 2 ^ 53 < (of_int di :: rat) / of_int ti" by linarith
  then have "1 + 1 / 2 ^ 52 \<le> round64 (of_int di / of_int ti)" by (rule round64_gt_1)
  then have "100 * (1 + 1 / 2 ^ 52) \<le> round64 (of_int di / of_int ti) * 100" by simp
  then have "round64 (100 * (1 + 1 / 2 ^ 52)) \<le> round64 (round64 (of_int di / of_int ti) * 100)"
    by (intro round64_mono_pos) simp_all
  with round64_above_100 show ?thesis by (simp add: fmul_def fdiv_def ft fd)
qed

lemma percent_negative:
  assumes "0 < sint d"
  shows "fmul (fdiv (float64 d) (float64 (- 1))) 100 < 0"
proof -
  have dp: "0 < float64 d" using assms by (rule float64_pos)
  have m1: "float64 (- 1) = - 1" by (simp add: float64_def round64_m1)
  have "fdiv (float64 d) (float64 (- 1)) = round64 (- float64 d)" by (simp add: fdiv_def m1)
  also have "\<dots> = - round64 (float64 d)" by (rule round64_minus)
  finally have "fdiv (float64 d) (float64 (- 1)) < 0" using round64_pos[OF dp] by simp
  then have "fdiv (float64 d) (float64 (- 1)) * 100 < 0" by simp
  then show ?thesis unfolding fmul_def by (rule round64_neg)
qed

lemma percent_tie:
  "fmul (fdiv (float64 9007199254740993) (float64 9007199254740992)) 100 = 100"
proof -
  have s1: "sint (9007199254740993 :: 64 word) = 9007199254740993" by simp
  have s2: "sint (9007199254740992 :: 64 word) = 9007199254740992" by simp
  have f1: "float64 9007199254740993 = 9007199254740992"
    by (simp add: float64_def s1 round64_2p53_1)
  have f2: "float64 9007199254740992 = 9007199254740992"
    using round64_2p53 by (simp add: float64_def s2)
  show ?thesis by (simp add: f1 f2 fdiv_def fmul_def round64_1 round64_100)
qed

subsection \<open>Transfers: what the stages leave\<close>

declare Join.simps [simp del]

lemma Log_fields [simp]:
  "baseURL (Log e a) = baseURL a" "appName (Log e a) = appName a"
  "clientInfo (Log e a) = clientInfo a" "assetsInfo (Log e a) = assetsInfo a"
  "totalBytes (Log e a) = totalBytes a" "totalFiles (Log e a) = totalFiles a"
  "downloadedBytes (Log e a) = downloadedBytes a" "downloadedFiles (Log e a) = downloadedFiles a"
  "logger (Log e a) = logger a @ [e]"
  by (simp_all add: Log_def)

lemma appDirectory_fields [simp]:
  "baseURL (snd (appDirectory en a)) = baseURL a" "appName (snd (appDirectory en a)) = appName a"
  "clientInfo (snd (appDirectory en a)) = clientInfo a" "assetsInfo (snd (appDirectory en a)) = assetsInfo a"
  "totalBytes (snd (appDirectory en a)) = totalBytes a" "totalFiles (snd (appDirectory en a)) = totalFiles a"
  "downloadedBytes (snd (appDirectory en a)) = downloadedBytes a"
  "downloadedFiles (snd (appDirectory en a)) = downloadedFiles a"
  by (simp_all add: appDirectory_def split: sum.splits)

lemma teeWrite_fields [simp]:
  "baseURL (teeWrite p c a) = baseURL a" "appName (teeWrite p c a) = appName a"
  "clientInfo (teeWrite p c a) = clientInfo a" "assetsInfo (teeWrite p c a) = assetsInfo a"
  "totalBytes (teeWrite p c a) = totalBytes a" "totalFiles (teeWrite p c a) = totalFiles a"
  "downloadedFiles (teeWrite p c a) = downloadedFiles a" "logger (teeWrite p c a) = logger a"
  by (simp_all add: teeWrite_def Write_def)

lemma teeWrite_bytes:
  "downloadedBytes (teeWrite p c a) = downloadedBytes a + (if p then of_nat (length c) else 0)"
  by (simp add: teeWrite_def Write_def)

lemma os_requests [simp]:
  "requests (snd (os_MkdirAll en p w)) = requests w"
  "requests (snd (os_Create en p w)) = requests w"
  "requests (snd (os_Write en p b w)) = requests w"
  "requests (snd (os_WriteFile en p b w)) = requests w"
  "requests (snd (os_RemoveAll en p w)) = requests w"
  by (simp_all add: os_MkdirAll_def os_Create_def os_Write_def os_WriteFile_def os_RemoveAll_def
        split: option.splits)

lemma http_Get_requests [simp]: "requests (snd (http_Get en url w)) = requests w @ [url]"
  by (simp add: http_Get_def)

lemma http_Get_fst [simp]: "fst (http_Get en url w) = httpGet en (length (requests w)) url"
  by (simp add: http_Get_def)

text \<open>What \<open>io.Copy\<close> leaves: the reader's callback has run on a prefix of the chunks.\<close>

lemma io_Copy_prefix:
  "\<exists>k \<le> length cs. fst (snd (io_Copy en out g cs rerr (s, w))) = foldl (\<lambda>s c. g c s) s (take k cs)"
proof (induction cs arbitrary: s w)
  case Nil
  then show ?case by simp
next
  case (Cons c cs)
  show ?case
  proof (cases "fst (os_Write en out c w)")
    case None
    then have eq: "io_Copy en out g (c # cs) rerr (s, w)
        = io_Copy en out g cs rerr (g c s, snd (os_Write en out c w))"
      by (cases "os_Write en out c w") (simp add: Let_def)
    from Cons.IH[of "g c s" "snd (os_Write en out c w)"] obtain k where
      k: "k \<le> length cs"
         "fst (snd (io_Copy en out g cs rerr (g c s, snd (os_Write en out c w))))
            = foldl (\<lambda>s c. g c s) (g c s) (take k cs)"
      by blast
    show ?thesis
      by (rule exI[of _ "Suc k"]) (use k eq in simp)
  next
    case (Some e)
    then have "fst (snd (io_Copy en out g (c # cs) rerr (s, w))) = g c s"
      by (cases "os_Write en out c w") (simp add: Let_def)
    then show ?thesis by (intro exI[of _ "Suc 0"]) simp
  qed
qed

lemma io_Copy_requests [simp]:
  "requests (snd (snd (io_Copy en out g cs rerr (s, w)))) = requests w"
proof (induction cs arbitrary: s w)
  case Nil
  then show ?case by simp
next
  case (Cons c cs)
  show ?case
  proof (cases "os_Write en out c w")
    case (Pair r w')
    then have rw: "requests w' = requests w" using os_requests(3)[of en out c w] by simp
    show ?thesis using Pair Cons.IH[of "g c s" w'] rw by (cases r) (simp_all add: Let_def)
  qed
qed

lemma foldl_teeWrite_fields [simp]:
  "totalBytes (foldl (\<lambda>a c. teeWrite p c a) a cs) = totalBytes a"
  "downloadedFiles (foldl (\<lambda>a c. teeWrite p c a) a cs) = downloadedFiles a"
  "totalFiles (foldl (\<lambda>a c. teeWrite p c a) a cs) = totalFiles a"
  "logger (foldl (\<lambda>a c. teeWrite p c a) a cs) = logger a"
  "baseURL (foldl (\<lambda>a c. teeWrite p c a) a cs) = baseURL a"
  "appName (foldl (\<lambda>a c. teeWrite p c a) a cs) = appName a"
  "clientInfo (foldl (\<lambda>a c. teeWrite p c a) a cs) = clientInfo a"
  "assetsInfo (foldl (\<lambda>a c. teeWrite p c a) a cs) = assetsInfo a"
  by (induction cs arbitrary: a) simp_all

lemma foldl_teeWrite_bytes:
  "downloadedBytes (foldl (\<lambda>a c. teeWrite p c a) a cs)
     = downloadedBytes a + (if p then of_nat (length (concat cs)) else 0)"
  by (induction cs arbitrary: a) (simp_all add: teeWrite_bytes)

lemma io_Copy_tee_fields [simp]:
  "totalBytes (fst (snd (io_Copy en out (teeWrite p) cs rerr (a, w)))) = totalBytes a"
  "downloadedFiles (fst (snd (io_Copy en out (teeWrite p) cs rerr (a, w)))) = downloadedFiles a"
  "totalFiles (fst (snd (io_Copy en out (teeWrite p) cs rerr (a, w)))) = totalFiles a"
  "logger (fst (snd (io_Copy en out (teeWrite p) cs rerr (a, w)))) = logger a"
  "baseURL (fst (snd (io_Copy en out (teeWrite p) cs rerr (a, w)))) = baseURL a"
  "appName (fst (snd (io_Copy en out (teeWrite p) cs rerr (a, w)))) = appName a"
  "clientInfo (fst (snd (io_Copy en out (teeWrite p) cs rerr (a, w)))) = clientInfo a"
  "assetsInfo (fst (snd (io_Copy en out (teeWrite p) cs rerr (a, w)))) = assetsInfo a"
  using io_Copy_prefix[of cs en out "teeWrite p" rerr a w] by auto

lemma io_Copy_tee_bytes:
  "\<exists>k \<le> length cs. downloadedBytes (fst (snd (io_Copy en out (teeWrite p) cs rerr (a, w))))
     = downloadedBytes a + (if p then of_nat (length (concat (take k cs))) else 0)"
  using io_Copy_prefix[of cs en out "teeWrite p" rerr a w] by (auto simp: foldl_teeWrite_bytes)

lemma pullReads_eq:
  "pullReads p n cs a = (foldl (\<lambda>a c. teeWrite p c a) a (take n cs), drop n cs)"
  by (simp add: pullReads_def)

lemma take_min_length: "take (min n (length xs)) xs = take n xs"
  by (cases "n \<le> length xs") (simp_all add: min_def)

lemma lzma_Copy_prefix:
  "\<exists>k \<le> length cs. fst (snd (lzma_Copy en out p ss endN endE cs (a, w)))
       = foldl (\<lambda>a c. teeWrite p c a) a (take k cs)"
proof (induction ss arbitrary: cs a w)
  case Nil
  show ?case
    by (rule exI[of _ "min endN (length cs)"]) (simp add: pullReads_eq take_min_length)
next
  case (Cons nc ss)
  obtain n c where nc: "nc = (n, c)" by (cases nc)
  define a' where "a' = foldl (\<lambda>a c. teeWrite p c a) a (take n cs)"
  show ?case
  proof (cases "os_Write en out c w")
    case (Pair r w')
    show ?thesis
    proof (cases r)
      case (Some e)
      then have "fst (snd (lzma_Copy en out p (nc # ss) endN endE cs (a, w))) = a'"
        using Pair by (simp add: nc pullReads_eq a'_def)
      then show ?thesis
        by (intro exI[of _ "min n (length cs)"]) (simp add: a'_def take_min_length)
    next
      case None
      then have eq: "lzma_Copy en out p (nc # ss) endN endE cs (a, w)
          = lzma_Copy en out p ss endN endE (drop n cs) (a', w')"
        using Pair by (simp add: nc pullReads_eq a'_def)
      from Cons.IH[of "drop n cs" a' w'] obtain k where
        k: "k \<le> length (drop n cs)"
           "fst (snd (lzma_Copy en out p ss endN endE (drop n cs) (a', w')))
              = foldl (\<lambda>a c. teeWrite p c a) a' (take k (drop n cs))"
        by blast
      have "foldl (\<lambda>a c. teeWrite p c a) a' (take k (drop n cs))
          = foldl (\<lambda>a c. teeWrite p c a) a (take n cs @ take k (drop n cs))"
        by (simp add: a'_def)
      also have "take n cs @ take k (drop n cs) = take (n + k) cs" by (simp add: take_add)
      also have "take (n + k) cs = take (min (n + k) (length cs)) cs" by (simp add: take_min_length)
      finally show ?thesis using k eq
        by (intro exI[of _ "min (n + k) (length cs)"]) simp
    qed
  qed
qed

lemma lzma_Copy_requests [simp]:
  "requests (snd (snd (lzma_Copy en out p ss endN endE cs (a, w)))) = requests w"
proof (induction ss arbitrary: cs a w)
  case Nil
  then show ?case by simp
next
  case (Cons nc ss)
  obtain n c where nc: "nc = (n, c)" by (cases nc)
  show ?case
  proof (cases "os_Write en out c w")
    case (Pair r w')
    then have rw: "requests w' = requests w" using os_requests(3)[of en out c w] by simp
    show ?thesis
      using Pair rw Cons.IH[of "drop n cs" "foldl (\<lambda>a c. teeWrite p c a) a (take n cs)" w']
      by (cases r) (simp_all add: nc pullReads_eq)
  qed
qed


lemma lzma_Copy_fields [simp]:
  "totalBytes (fst (snd (lzma_Copy en out p ss endN endE cs (a, w)))) = totalBytes a"
  "downloadedFiles (fst (snd (lzma_Copy en out p ss endN endE cs (a, w)))) = downloadedFiles a"
  "totalFiles (fst (snd (lzma_Copy en out p ss endN endE cs (a, w)))) = totalFiles a"
  "logger (fst (snd (lzma_Copy en out p ss endN endE cs (a, w)))) = logger a"
  "baseURL (fst (snd (lzma_Copy en out p ss endN endE cs (a, w)))) = baseURL a"
  "appName (fst (snd (lzma_Copy en out p ss endN endE cs (a, w)))) = appName a"
  "clientInfo (fst (snd (lzma_Copy en out p ss endN endE cs (a, w)))) = clientInfo a"
  "assetsInfo (fst (snd (lzma_Copy en out p ss endN endE cs (a, w)))) = assetsInfo a"
  using lzma_Copy_prefix[of cs en out p ss endN endE a w] by auto

text \<open>The end of a transfer: the file counter is incremented when the copy returned no
  error.\<close>

lemma finish_fst:
  "fst (case r of (Some e, a4, w4) \<Rightarrow> (Some e, a4, w4)
        | (None, a4, w4) \<Rightarrow> (None, a4\<lparr>downloadedFiles := downloadedFiles a4 + 1\<rparr>, w4)) = fst r"
  by (cases r; cases "fst r") auto

lemma finish_app:
  "fst (snd (case r of (Some e, a4, w4) \<Rightarrow> (Some e, a4, w4)
        | (None, a4, w4) \<Rightarrow> (None, a4\<lparr>downloadedFiles := downloadedFiles a4 + 1\<rparr>, w4)))
     = (if fst r = None then (fst (snd r))\<lparr>downloadedFiles := downloadedFiles (fst (snd r)) + 1\<rparr>
        else fst (snd r))"
  by (cases r; cases "fst r") auto

lemma finish_world:
  "snd (snd (case r of (Some e, a4, w4) \<Rightarrow> (Some e, a4, w4)
        | (None, a4, w4) \<Rightarrow> (None, a4\<lparr>downloadedFiles := downloadedFiles a4 + 1\<rparr>, w4)))
     = snd (snd r)"
  by (cases r; cases "fst r") auto

lemma appDirectory_Log [simp]: "fst (appDirectory en (Log e a)) = fst (appDirectory en a)"
  by (simp add: appDirectory_def Log_def split: sum.splits)

text \<open>The outcomes of \<open>downloadFile\<close>, stage by stage.\<close>

lemma downloadFile_outcome:
  fixes en url dname p a w
  defines "a2 \<equiv> snd (appDirectory en (Log (Infof ''Downloading %s to %s'' [S url, S dname]) a))"
      and "dst \<equiv> Join [fst (appDirectory en a), dname]"
      and "R \<equiv> downloadFile en url dname p (a, w)"
  obtains
    (mkdir) e w1 where "os_MkdirAll en (Dir dst) w = (Some e, w1)" "R = (Some e, a2, w1)"
  | (create) e w1 w2 where "os_MkdirAll en (Dir dst) w = (None, w1)"
      "os_Create en dst w1 = (Some e, w2)" "R = (Some e, a2, w2)"
  | (get) e w1 w2 where "os_MkdirAll en (Dir dst) w = (None, w1)"
      "os_Create en dst w1 = (None, w2)" "httpGet en (length (requests w)) url = Inl e"
      "R = (Some e, a2, w2\<lparr>requests := requests w @ [url]\<rparr>)"
  | (status) resp w1 w2 where "os_MkdirAll en (Dir dst) w = (None, w1)"
      "os_Create en dst w1 = (None, w2)" "httpGet en (length (requests w)) url = Inr resp"
      "StatusCode resp \<noteq> 200"
      "R = (Some (StatusError (StatusCode resp)), a2, w2\<lparr>requests := requests w @ [url]\<rparr>)"
  | (lzmahdr) resp w1 w2 e where "os_MkdirAll en (Dir dst) w = (None, w1)"
      "os_Create en dst w1 = (None, w2)" "httpGet en (length (requests w)) url = Inr resp"
      "StatusCode resp = 200" "Ext dst \<noteq> ''.lzma''" "Ext url = ''.lzma''"
      "hdrErr (lzmaRead en (Body resp)) = Some e"
      "R = (Some e, foldl (\<lambda>a c. teeWrite p c a) a2
                       (take (hdrReads (lzmaRead en (Body resp))) (chunks (Body resp))),
            w2\<lparr>requests := requests w @ [url]\<rparr>)"
  | (lzma) resp w1 w2 r where "os_MkdirAll en (Dir dst) w = (None, w1)"
      "os_Create en dst w1 = (None, w2)" "httpGet en (length (requests w)) url = Inr resp"
      "StatusCode resp = 200" "Ext dst \<noteq> ''.lzma''" "Ext url = ''.lzma''"
      "hdrErr (lzmaRead en (Body resp)) = None"
      "r = lzma_Copy en dst p (steps (lzmaRead en (Body resp))) (endReads (lzmaRead en (Body resp)))
             (endErr (lzmaRead en (Body resp)))
             (drop (hdrReads (lzmaRead en (Body resp))) (chunks (Body resp)))
             (foldl (\<lambda>a c. teeWrite p c a) a2
                (take (hdrReads (lzmaRead en (Body resp))) (chunks (Body resp))),
              w2\<lparr>requests := requests w @ [url]\<rparr>)"
      "fst R = fst r"
      "fst (snd R) = (if fst r = None
                      then (fst (snd r))\<lparr>downloadedFiles := downloadedFiles (fst (snd r)) + 1\<rparr>
                      else fst (snd r))"
      "snd (snd R) = snd (snd r)"
  | (plain) resp w1 w2 r where "os_MkdirAll en (Dir dst) w = (None, w1)"
      "os_Create en dst w1 = (None, w2)" "httpGet en (length (requests w)) url = Inr resp"
      "StatusCode resp = 200" "\<not> (Ext dst \<noteq> ''.lzma'' \<and> Ext url = ''.lzma'')"
      "r = io_Copy en dst (teeWrite p) (chunks (Body resp)) (readErr (Body resp))
             (a2, w2\<lparr>requests := requests w @ [url]\<rparr>)"
      "fst R = fst r"
      "fst (snd R) = (if fst r = None
                      then (fst (snd r))\<lparr>downloadedFiles := downloadedFiles (fst (snd r)) + 1\<rparr>
                      else fst (snd r))"
      "snd (snd R) = snd (snd r)"
proof -
  obtain m w1 where mk: "os_MkdirAll en (Dir dst) w = (m, w1)" by (cases "os_MkdirAll en (Dir dst) w")
  have rq1: "requests w1 = requests w" using os_requests(1)[of en "Dir dst" w] mk by simp
  show ?thesis
  proof (cases m)
    case (Some e)
    then have "R = (Some e, a2, w1)"
      using mk by (simp add: R_def downloadFile_def Let_def case_prod_beta a2_def dst_def)
    then show ?thesis using mk Some mkdir by blast
  next
    case None
    note mN = this
    obtain c w2 where cr: "os_Create en dst w1 = (c, w2)" by (cases "os_Create en dst w1")
    have rq2: "requests w2 = requests w" using os_requests(2)[of en dst w1] cr rq1 by simp
    show ?thesis
    proof (cases c)
      case (Some e)
      then have "R = (Some e, a2, w2)"
        using mk mN cr by (simp add: R_def downloadFile_def Let_def case_prod_beta a2_def dst_def)
      then show ?thesis using mk mN cr Some create by blast
    next
      case None
      note cN = this
      note hg = http_Get_def rq2
      show ?thesis
      proof (cases "httpGet en (length (requests w)) url")
        case (Inl e)
        then have "R = (Some e, a2, w2\<lparr>requests := requests w @ [url]\<rparr>)"
          using mk mN cr cN
          by (simp add: hg R_def downloadFile_def Let_def case_prod_beta a2_def dst_def)
        then show ?thesis using mk mN cr cN Inl get by blast
      next
        case (Inr resp)
        show ?thesis
        proof (cases "StatusCode resp = 200")
          case False
          then have "R = (Some (StatusError (StatusCode resp)), a2, w2\<lparr>requests := requests w @ [url]\<rparr>)"
            using mk mN cr cN Inr
            by (simp add: hg R_def downloadFile_def Let_def case_prod_beta a2_def dst_def)
          then show ?thesis using mk mN cr cN Inr False status by blast
        next
          case True
          show ?thesis
          proof (cases "Ext dst \<noteq> ''.lzma'' \<and> Ext url = ''.lzma''")
            case False
            define r where "r = io_Copy en dst (teeWrite p) (chunks (Body resp)) (readErr (Body resp))
               (a2, w2\<lparr>requests := requests w @ [url]\<rparr>)"
            have condF: "(Ext (Join [fst (appDirectory en a), dname]) \<noteq> ''.lzma'' \<and> Ext url = ''.lzma'') = False"
              using False by (simp add: dst_def)
            have Req: "R = (case r of (Some e, a4, w4) \<Rightarrow> (Some e, a4, w4)
                | (None, a4, w4) \<Rightarrow> (None, a4\<lparr>downloadedFiles := downloadedFiles a4 + 1\<rparr>, w4))"
              using mk mN cr cN Inr True
              by (simp add: condF hg R_def downloadFile_def Let_def case_prod_beta a2_def dst_def r_def)
            show ?thesis
              using plain[OF _ _ Inr True False r_def] mk mN cr cN
              by (simp add: Req finish_fst finish_app finish_world)
          next
            case lz: True
            show ?thesis
            proof (cases "hdrErr (lzmaRead en (Body resp))")
              case (Some e)
              then have "R = (Some e, foldl (\<lambda>a c. teeWrite p c a) a2
                       (take (hdrReads (lzmaRead en (Body resp))) (chunks (Body resp))),
                    w2\<lparr>requests := requests w @ [url]\<rparr>)"
                using mk mN cr cN Inr True lz
                by (simp add: hg R_def downloadFile_def Let_def case_prod_beta a2_def dst_def pullReads_eq)
              then show ?thesis using lzmahdr mk mN cr cN Inr True lz Some by blast
            next
              case None
              define r where "r = lzma_Copy en dst p (steps (lzmaRead en (Body resp)))
                 (endReads (lzmaRead en (Body resp))) (endErr (lzmaRead en (Body resp)))
                 (drop (hdrReads (lzmaRead en (Body resp))) (chunks (Body resp)))
                 (foldl (\<lambda>a c. teeWrite p c a) a2
                    (take (hdrReads (lzmaRead en (Body resp))) (chunks (Body resp))),
                  w2\<lparr>requests := requests w @ [url]\<rparr>)"
              have Req: "R = (case r of (Some e, a4, w4) \<Rightarrow> (Some e, a4, w4)
                  | (None, a4, w4) \<Rightarrow> (None, a4\<lparr>downloadedFiles := downloadedFiles a4 + 1\<rparr>, w4))"
                using mk mN cr cN Inr True lz None
                by (simp add: hg R_def downloadFile_def Let_def case_prod_beta a2_def dst_def r_def pullReads_eq)
              show ?thesis
                using lzma[OF _ _ Inr True _ _ None r_def] mk mN cr cN lz
                by (simp add: Req finish_fst finish_app finish_world)
            qed
          qed
        qed
      qed
    qed
  qed
qed

lemma io_Copy_unit_requests:
  "io_Copy en out g cs rerr (u, w) = (r, u', w') \<Longrightarrow> requests w' = requests w"
  using io_Copy_requests[of en out g cs rerr u w] by simp

lemma extractFiles_requests [simp]:
  "requests (snd (extractFiles en dst rf fs w)) = requests w"
proof (induction fs arbitrary: w)
  case Nil
  then show ?case by simp
next
  case (Cons f fs)
  show ?case
  proof (cases "extractTarget dst rf f")
    case None
    then show ?thesis using Cons.IH by simp
  next
    case (Some tp)
    show ?thesis
    proof (cases "IsDir f")
      case True
      obtain m w1 where mk: "os_MkdirAll en tp w = (m, w1)" by (cases "os_MkdirAll en tp w")
      then have "requests w1 = requests w" using os_requests(1)[of en tp w] by simp
      then show ?thesis using Some True mk Cons.IH[of w1] by (cases m) simp_all
    next
      case False
      obtain m w1 where mk: "os_MkdirAll en (Dir tp) w = (m, w1)"
        by (cases "os_MkdirAll en (Dir tp) w")
      then have r1: "requests w1 = requests w" using os_requests(1)[of en "Dir tp" w] by simp
      show ?thesis
      proof (cases m)
        case (Some e)
        then show ?thesis using \<open>extractTarget dst rf f = Some tp\<close> False mk r1 by simp
      next
        case None
        note mN = this
        show ?thesis
        proof (cases "Open f")
          case (Inl e)
          then show ?thesis using \<open>extractTarget dst rf f = Some tp\<close> False mk mN r1 by simp
        next
          case (Inr rc)
          obtain c w2 where cr: "os_Create en tp w1 = (c, w2)" by (cases "os_Create en tp w1")
          then have r2: "requests w2 = requests w" using os_requests(2)[of en tp w1] r1 by simp
          show ?thesis
          proof (cases c)
            case (Some e)
            then show ?thesis
              using \<open>extractTarget dst rf f = Some tp\<close> False mk mN Inr cr r2 by simp
          next
            case None
            obtain x u w3 where cp: "io_Copy en tp (\<lambda>c u. u) (chunks rc) (readErr rc) ((), w2) = (x, u, w3)"
              by (cases "io_Copy en tp (\<lambda>c u. u) (chunks rc) (readErr rc) ((), w2)")
            then have r3: "requests w3 = requests w" using io_Copy_unit_requests[OF cp] r2 by simp
            show ?thesis
              using \<open>extractTarget dst rf f = Some tp\<close> False mk mN Inr cr None cp r3 Cons.IH[of w3]
              by (cases x) simp_all
          qed
        qed
      qed
    qed
  qed
qed

lemma unzipToFolder_requests [simp]:
  "requests (snd (unzipToFolder en src dst w)) = requests w"
  by (simp add: unzipToFolder_def split: sum.splits)

text \<open>The outcomes of \<open>downloadZip\<close>, stage by stage.\<close>

lemma downloadZip_outcome:
  fixes en url tf p a w
  defines "a1 \<equiv> snd (appDirectory en a)"
      and "targetPath \<equiv> Join [fst (appDirectory en a), tf]"
      and "tempFile \<equiv> Join [TempDir en, ''nordemon_download.zip'']"
      and "R \<equiv> downloadZip en url tf p (a, w)"
  obtains
    (mkdir) e w1 where "os_MkdirAll en targetPath w = (Some e, w1)" "R = (Some e, a1, w1)"
  | (create) e w1 w2 where "os_MkdirAll en targetPath w = (None, w1)"
      "os_Create en tempFile w1 = (Some e, w2)" "R = (Some e, a1, w2)"
  | (get) e w1 w2 where "os_MkdirAll en targetPath w = (None, w1)"
      "os_Create en tempFile w1 = (None, w2)" "httpGet en (length (requests w)) url = Inl e"
      "R = (Some e, a1, w2\<lparr>requests := requests w @ [url]\<rparr>)"
  | (status) resp w1 w2 where "os_MkdirAll en targetPath w = (None, w1)"
      "os_Create en tempFile w1 = (None, w2)" "httpGet en (length (requests w)) url = Inr resp"
      "StatusCode resp \<noteq> 200"
      "R = (Some (StatusError (StatusCode resp)), a1, w2\<lparr>requests := requests w @ [url]\<rparr>)"
  | (copy) resp w1 w2 e a3 w4 where "os_MkdirAll en targetPath w = (None, w1)"
      "os_Create en tempFile w1 = (None, w2)" "httpGet en (length (requests w)) url = Inr resp"
      "StatusCode resp = 200"
      "io_Copy en tempFile (teeWrite p) (chunks (Body resp)) (readErr (Body resp))
         (a1\<lparr>totalBytes := ContentLength resp\<rparr>, w2\<lparr>requests := requests w @ [url]\<rparr>)
         = (Some e, a3, w4)"
      "R = (Some e, a3, w4)"
  | (unzip) resp w1 w2 e a3 w4 w5 where "os_MkdirAll en targetPath w = (None, w1)"
      "os_Create en tempFile w1 = (None, w2)" "httpGet en (length (requests w)) url = Inr resp"
      "StatusCode resp = 200"
      "io_Copy en tempFile (teeWrite p) (chunks (Body resp)) (readErr (Body resp))
         (a1\<lparr>totalBytes := ContentLength resp\<rparr>, w2\<lparr>requests := requests w @ [url]\<rparr>)
         = (None, a3, w4)"
      "unzipToFolder en tempFile targetPath w4 = (Some e, w5)"
      "R = (Some e, a3, w5)"
  | (ok) resp w1 w2 a3 w4 w5 where "os_MkdirAll en targetPath w = (None, w1)"
      "os_Create en tempFile w1 = (None, w2)" "httpGet en (length (requests w)) url = Inr resp"
      "StatusCode resp = 200"
      "io_Copy en tempFile (teeWrite p) (chunks (Body resp)) (readErr (Body resp))
         (a1\<lparr>totalBytes := ContentLength resp\<rparr>, w2\<lparr>requests := requests w @ [url]\<rparr>)
         = (None, a3, w4)"
      "unzipToFolder en tempFile targetPath w4 = (None, w5)"
      "R = (None, a3\<lparr>downloadedFiles := downloadedFiles a3 + 1\<rparr>, w5)"
proof -
  note defs = R_def downloadZip_def Let_def case_prod_beta a1_def targetPath_def tempFile_def
  obtain m w1 where mk: "os_MkdirAll en targetPath w = (m, w1)" by (cases "os_MkdirAll en targetPath w")
  have rq1: "requests w1 = requests w" using os_requests(1)[of en targetPath w] mk by simp
  show ?thesis
  proof (cases m)
    case (Some e)
    then have "R = (Some e, a1, w1)" using mk by (simp add: defs)
    then show ?thesis using mk Some mkdir by blast
  next
    case None
    note mN = this
    obtain c w2 where cr: "os_Create en tempFile w1 = (c, w2)" by (cases "os_Create en tempFile w1")
    have rq2: "requests w2 = requests w" using os_requests(2)[of en tempFile w1] cr rq1 by simp
    note hg = http_Get_def rq2
    show ?thesis
    proof (cases c)
      case (Some e)
      then have "R = (Some e, a1, w2)" using mk mN cr by (simp add: defs)
      then show ?thesis using mk mN cr Some create by blast
    next
      case None
      note cN = this
      show ?thesis
      proof (cases "httpGet en (length (requests w)) url")
        case (Inl e)
        then have "R = (Some e, a1, w2\<lparr>requests := requests w @ [url]\<rparr>)"
          using mk mN cr cN by (simp add: hg defs)
        then show ?thesis using mk mN cr cN Inl get by blast
      next
        case (Inr resp)
        show ?thesis
        proof (cases "StatusCode resp = 200")
          case False
          then have "R = (Some (StatusError (StatusCode resp)), a1, w2\<lparr>requests := requests w @ [url]\<rparr>)"
            using mk mN cr cN Inr by (simp add: hg defs)
          then show ?thesis using mk mN cr cN Inr False status by blast
        next
          case True
          obtain x a3 w4 where cp:
            "io_Copy en tempFile (teeWrite p) (chunks (Body resp)) (readErr (Body resp))
               (a1\<lparr>totalBytes := ContentLength resp\<rparr>, w2\<lparr>requests := requests w @ [url]\<rparr>)
               = (x, a3, w4)"
            by (cases "io_Copy en tempFile (teeWrite p) (chunks (Body resp)) (readErr (Body resp))
               (a1\<lparr>totalBytes := ContentLength resp\<rparr>, w2\<lparr>requests := requests w @ [url]\<rparr>)")
          show ?thesis
          proof (cases x)
            case (Some e)
            then have "R = (Some e, a3, w4)"
              using mk mN cr cN Inr True cp by (simp add: hg defs)
            then show ?thesis using mk mN cr cN Inr True cp Some copy by blast
          next
            case None
            note xN = this
            obtain y w5 where uz: "unzipToFolder en tempFile targetPath w4 = (y, w5)"
              by (cases "unzipToFolder en tempFile targetPath w4")
            show ?thesis
            proof (cases y)
              case (Some e)
              then have "R = (Some e, a3, w5)"
                using mk mN cr cN Inr True cp xN uz by (simp add: hg defs)
              then show ?thesis using mk mN cr cN Inr True cp xN uz Some unzip by blast
            next
              case None
              then have "R = (None, a3\<lparr>downloadedFiles := downloadedFiles a3 + 1\<rparr>, w5)"
                using mk mN cr cN Inr True cp xN uz by (simp add: hg defs)
              then show ?thesis using mk mN cr cN Inr True cp xN uz None ok by blast
            qed
          qed
        qed
      qed
    qed
  qed
qed

lemma downloadFile_downloadedFiles:
  "downloadedFiles (fst (snd (downloadFile en url dst p (a, w))))
     = downloadedFiles a + (if fst (downloadFile en url dst p (a, w)) = None then 1 else 0)"
  by (rule downloadFile_outcome[where en=en and url=url and dname=dst and p=p and a=a and w=w]) simp_all

lemma downloadFile_fields [simp]:
  "totalBytes (fst (snd (downloadFile en url dst p (a, w)))) = totalBytes a"
  "totalFiles (fst (snd (downloadFile en url dst p (a, w)))) = totalFiles a"
  "baseURL (fst (snd (downloadFile en url dst p (a, w)))) = baseURL a"
  "appName (fst (snd (downloadFile en url dst p (a, w)))) = appName a"
  "clientInfo (fst (snd (downloadFile en url dst p (a, w)))) = clientInfo a"
  "assetsInfo (fst (snd (downloadFile en url dst p (a, w)))) = assetsInfo a"
  by (rule downloadFile_outcome[where en=en and url=url and dname=dst and p=p and a=a and w=w]; simp)+

lemma os_MkdirAll_req: "os_MkdirAll en p w = (r, w1) \<Longrightarrow> requests w1 = requests w"
  using os_requests(1)[of en p w] by simp

lemma os_Create_req: "os_Create en p w = (r, w1) \<Longrightarrow> requests w1 = requests w"
  using os_requests(2)[of en p w] by simp

lemma downloadFile_requests:
  "requests (snd (snd (downloadFile en url dst p (a, w)))) = requests w \<or>
   requests (snd (snd (downloadFile en url dst p (a, w)))) = requests w @ [url]"
proof (rule downloadFile_outcome[where en=en and url=url and dname=dst and p=p and a=a and w=w], goal_cases)
  case (1 e w1)
  then show ?case by (simp add: os_MkdirAll_req)
next
  case (2 e w1 w2)
  then show ?case by (simp add: os_MkdirAll_req os_Create_req)
qed simp_all

lemma downloadFile_status:
  assumes "httpGet en (length (requests w)) url = Inr resp" "StatusCode resp \<noteq> 200"
  shows "fst (downloadFile en url dst p (a, w)) \<noteq> None"
    and "requests (snd (snd (downloadFile en url dst p (a, w)))) = requests w @ [url]
         \<Longrightarrow> fst (downloadFile en url dst p (a, w)) = Some (StatusError (StatusCode resp))"
    and "downloadedBytes (fst (snd (downloadFile en url dst p (a, w)))) = downloadedBytes a"
proof -
  show "fst (downloadFile en url dst p (a, w)) \<noteq> None"
    using assms by (rule_tac downloadFile_outcome[where en=en and url=url and dname=dst and p=p and a=a and w=w]) simp_all
  show "downloadedBytes (fst (snd (downloadFile en url dst p (a, w)))) = downloadedBytes a"
    using assms by (rule_tac downloadFile_outcome[where en=en and url=url and dname=dst and p=p and a=a and w=w]) simp_all
  assume rq: "requests (snd (snd (downloadFile en url dst p (a, w)))) = requests w @ [url]"
  show "fst (downloadFile en url dst p (a, w)) = Some (StatusError (StatusCode resp))"
  proof (rule downloadFile_outcome[where en=en and url=url and dname=dst and p=p and a=a and w=w], goal_cases)
    case (1 e w1)
    then show ?case using rq by (simp add: os_MkdirAll_req)
  next
    case (2 e w1 w2)
    then show ?case using rq by (simp add: os_MkdirAll_req os_Create_req)
  qed (use assms in simp_all)
qed

lemma prefix_bytes_same:
  "(x::64 word) = y \<Longrightarrow>
   \<exists>k \<le> length cs. x = y + (if p then of_nat (length (concat (take k cs))) else 0)"
  by (rule exI[of _ 0]) simp

lemma foldl_tee_prefix_bytes:
  assumes "downloadedBytes b = downloadedBytes a"
  shows "\<exists>k \<le> length cs. downloadedBytes (foldl (\<lambda>a c. teeWrite p c a) b (take n cs))
      = downloadedBytes a + (if p then of_nat (length (concat (take k cs))) else 0)"
  by (rule exI[of _ "min n (length cs)"]) (simp add: foldl_teeWrite_bytes take_min_length assms)

lemma lzma_after_header_bytes:
  assumes "downloadedBytes b = downloadedBytes a"
  shows "\<exists>k \<le> length cs. downloadedBytes (fst (snd (lzma_Copy en out p ss endN endE (drop n cs)
        (foldl (\<lambda>a c. teeWrite p c a) b (take n cs), w))))
      = downloadedBytes a + (if p then of_nat (length (concat (take k cs))) else 0)"
proof -
  obtain k where k: "k \<le> length (drop n cs)"
    "fst (snd (lzma_Copy en out p ss endN endE (drop n cs)
        (foldl (\<lambda>a c. teeWrite p c a) b (take n cs), w)))
      = foldl (\<lambda>a c. teeWrite p c a) (foldl (\<lambda>a c. teeWrite p c a) b (take n cs)) (take k (drop n cs))"
    using lzma_Copy_prefix[of "drop n cs" en out p ss endN endE
            "foldl (\<lambda>a c. teeWrite p c a) b (take n cs)" w] by blast
  have "foldl (\<lambda>a c. teeWrite p c a) (foldl (\<lambda>a c. teeWrite p c a) b (take n cs)) (take k (drop n cs))
      = foldl (\<lambda>a c. teeWrite p c a) b (take n cs @ take k (drop n cs))" by simp
  also have "take n cs @ take k (drop n cs) = take (n + k) cs" by (simp add: take_add)
  finally have eq: "fst (snd (lzma_Copy en out p ss endN endE (drop n cs)
        (foldl (\<lambda>a c. teeWrite p c a) b (take n cs), w)))
      = foldl (\<lambda>a c. teeWrite p c a) b (take (n + k) cs)" using k(2) by simp
  show ?thesis unfolding eq using assms by (rule foldl_tee_prefix_bytes)
qed

lemma io_Copy_prefix_bytes:
  assumes "downloadedBytes b = downloadedBytes a"
  shows "\<exists>k \<le> length cs. downloadedBytes (fst (snd (io_Copy en out (teeWrite p) cs rerr (b, w))))
     = downloadedBytes a + (if p then of_nat (length (concat (take k cs))) else 0)"
  using io_Copy_tee_bytes[of cs en out p rerr b w] by (simp only: assms)

lemma downloadFile_bytes:
  "\<exists>k \<le> length (bodyChunks (httpGet en (length (requests w)) url)).
     downloadedBytes (fst (snd (downloadFile en url dst p (a, w))))
       = downloadedBytes a
         + (if p then of_nat (length (concat (take k (bodyChunks (httpGet en (length (requests w)) url)))))
            else 0)"
proof (rule downloadFile_outcome[where en=en and url=url and dname=dst and p=p and a=a and w=w], goal_cases)
  case (1 e w1)
  then show ?case by (intro prefix_bytes_same) simp
next
  case (2 e w1 w2)
  then show ?case by (intro prefix_bytes_same) simp
next
  case (3 e w1 w2)
  then show ?case by (intro prefix_bytes_same) simp
next
  case (4 resp w1 w2)
  then show ?case by (intro prefix_bytes_same) simp
next
  case (5 resp w1 w2 e)
  have cs: "bodyChunks (httpGet en (length (requests w)) url) = chunks (Body resp)"
    using 5 by (simp add: bodyChunks_def)
  have st: "fst (snd (downloadFile en url dst p (a, w)))
    = foldl (\<lambda>a c. teeWrite p c a)
        (snd (appDirectory en (Log (Infof ''Downloading %s to %s'' [S url, S dst]) a)))
        (take (hdrReads (lzmaRead en (Body resp))) (chunks (Body resp)))"
    using 5 by simp
  show ?case unfolding cs st by (rule foldl_tee_prefix_bytes) simp
next
  case (6 resp w1 w2 r)
  have cs: "bodyChunks (httpGet en (length (requests w)) url) = chunks (Body resp)"
    using 6 by (simp add: bodyChunks_def)
  have st: "downloadedBytes (fst (snd (downloadFile en url dst p (a, w))))
    = downloadedBytes (fst (snd r))"
    using 6 by simp
  show ?case unfolding cs st 6(8) by (rule lzma_after_header_bytes) simp
next
  case (7 resp w1 w2 r)
  have cs: "bodyChunks (httpGet en (length (requests w)) url) = chunks (Body resp)"
    using 7 by (simp add: bodyChunks_def)
  have st: "downloadedBytes (fst (snd (downloadFile en url dst p (a, w))))
    = downloadedBytes (fst (snd r))"
    using 7 by simp
  show ?case unfolding cs st 7(6) by (rule io_Copy_prefix_bytes) simp
qed

subsection \<open>downloadZip\<close>

lemma io_Copy_eq_fields:
  assumes "io_Copy en out (teeWrite p) cs rerr (a, w) = (x, a3, w4)"
  shows "totalBytes a3 = totalBytes a" "downloadedFiles a3 = downloadedFiles a"
    "totalFiles a3 = totalFiles a" "baseURL a3 = baseURL a" "appName a3 = appName a"
    "clientInfo a3 = clientInfo a" "assetsInfo a3 = assetsInfo a" "requests w4 = requests w"
    "\<exists>k \<le> length cs. downloadedBytes a3
        = downloadedBytes a + (if p then of_nat (length (concat (take k cs))) else 0)"
  using io_Copy_tee_fields[of en out p cs rerr a w] io_Copy_requests[of en out "teeWrite p" cs rerr a w]
    io_Copy_tee_bytes[of cs en out p rerr a w] assms by simp_all

lemma unzipToFolder_req: "unzipToFolder en src dst w = (r, w1) \<Longrightarrow> requests w1 = requests w"
  using unzipToFolder_requests[of en src dst w] by simp

lemma downloadZip_downloadedFiles:
  "downloadedFiles (fst (snd (downloadZip en url tf p (a, w))))
     = downloadedFiles a + (if fst (downloadZip en url tf p (a, w)) = None then 1 else 0)"
  by (rule downloadZip_outcome[where en=en and url=url and tf=tf and p=p and a=a and w=w])
     (simp_all add: io_Copy_eq_fields)

lemma downloadZip_requests:
  "requests (snd (snd (downloadZip en url tf p (a, w)))) = requests w \<or>
   requests (snd (snd (downloadZip en url tf p (a, w)))) = requests w @ [url]"
  by (rule downloadZip_outcome[where en=en and url=url and tf=tf and p=p and a=a and w=w])
     (simp_all add: os_MkdirAll_req os_Create_req io_Copy_eq_fields unzipToFolder_req)

lemma downloadZip_status:
  assumes "httpGet en (length (requests w)) url = Inr resp" "StatusCode resp \<noteq> 200"
  shows "fst (downloadZip en url tf p (a, w)) \<noteq> None"
    and "requests (snd (snd (downloadZip en url tf p (a, w)))) = requests w @ [url]
         \<Longrightarrow> fst (downloadZip en url tf p (a, w)) = Some (StatusError (StatusCode resp))"
    and "downloadedBytes (fst (snd (downloadZip en url tf p (a, w)))) = downloadedBytes a"
proof -
  show "fst (downloadZip en url tf p (a, w)) \<noteq> None"
    using assms by (rule_tac downloadZip_outcome[where en=en and url=url and tf=tf and p=p and a=a and w=w]) simp_all
  show "downloadedBytes (fst (snd (downloadZip en url tf p (a, w)))) = downloadedBytes a"
    using assms by (rule_tac downloadZip_outcome[where en=en and url=url and tf=tf and p=p and a=a and w=w]) simp_all
  assume rq: "requests (snd (snd (downloadZip en url tf p (a, w)))) = requests w @ [url]"
  show "fst (downloadZip en url tf p (a, w)) = Some (StatusError (StatusCode resp))"
    using assms rq
    by (rule_tac downloadZip_outcome[where en=en and url=url and tf=tf and p=p and a=a and w=w])
       (simp_all add: os_MkdirAll_req os_Create_req)
qed

lemma downloadZip_bytes:
  "\<exists>k \<le> length (bodyChunks (httpGet en (length (requests w)) url)).
     downloadedBytes (fst (snd (downloadZip en url tf p (a, w))))
       = downloadedBytes a
         + (if p then of_nat (length (concat (take k (bodyChunks (httpGet en (length (requests w)) url)))))
            else 0)"
proof (rule downloadZip_outcome[where en=en and url=url and tf=tf and p=p and a=a and w=w], goal_cases)
  case (1 e w1)
  then show ?case by (intro prefix_bytes_same) simp
next
  case (2 e w1 w2)
  then show ?case by (intro prefix_bytes_same) simp
next
  case (3 e w1 w2)
  then show ?case by (intro prefix_bytes_same) simp
next
  case (4 resp w1 w2)
  then show ?case by (intro prefix_bytes_same) simp
next
  case (5 resp w1 w2 e a3 w4)
  have cs: "bodyChunks (httpGet en (length (requests w)) url) = chunks (Body resp)"
    using 5 by (simp add: bodyChunks_def)
  have st: "fst (snd (downloadZip en url tf p (a, w))) = a3" using 5 by simp
  show ?case unfolding cs st using io_Copy_eq_fields(9)[OF 5(5)] by simp
next
  case (6 resp w1 w2 e a3 w4 w5)
  have cs: "bodyChunks (httpGet en (length (requests w)) url) = chunks (Body resp)"
    using 6 by (simp add: bodyChunks_def)
  have st: "fst (snd (downloadZip en url tf p (a, w))) = a3" using 6 by simp
  show ?case unfolding cs st using io_Copy_eq_fields(9)[OF 6(5)] by simp
next
  case (7 resp w1 w2 a3 w4 w5)
  have cs: "bodyChunks (httpGet en (length (requests w)) url) = chunks (Body resp)"
    using 7 by (simp add: bodyChunks_def)
  have st: "downloadedBytes (fst (snd (downloadZip en url tf p (a, w)))) = downloadedBytes a3"
    using 7 by simp
  show ?case unfolding cs st using io_Copy_eq_fields(9)[OF 7(5)] by simp
qed

lemma downloadZip_totalBytes:
  assumes "fst (os_MkdirAll en (Join [fst (appDirectory en a), tf]) w) = None"
      and "fst (os_Create en (Join [TempDir en, ''nordemon_download.zip''])
                 (snd (os_MkdirAll en (Join [fst (appDirectory en a), tf]) w))) = None"
      and "httpGet en (length (requests w)) url = Inr resp" "StatusCode resp = 200"
  shows "totalBytes (fst (snd (downloadZip en url tf p (a, w)))) = ContentLength resp"
  using assms
  by (rule_tac downloadZip_outcome[where en=en and url=url and tf=tf and p=p and a=a and w=w])
     (simp_all add: io_Copy_eq_fields)

subsection \<open>Transfers: failures\<close>

text \<open>
  Claim C8. When the answer to the request of a transfer (\<open>downloadFile\<close> or
  \<open>downloadZip\<close>) has a status code outside 200..299, the transfer returns an error
  and leaves the done-files counter as it was. It does not retry: the log of
  requests is either unchanged (a directory or file could not be created, and no
  request was made) or longer by this one request, and then the error is the
  status error.
\<close>

theorem non2xx_status_fails:
  assumes "httpGet en (length (requests w)) url = Inr resp"
      and "StatusCode resp < 200 \<or> 299 < StatusCode resp"
  shows "fst (downloadFile en url dst p (a, w)) \<noteq> None \<and>
         downloadedFiles (fst (snd (downloadFile en url dst p (a, w)))) = downloadedFiles a \<and>
         (requests (snd (snd (downloadFile en url dst p (a, w)))) = requests w \<or>
          requests (snd (snd (downloadFile en url dst p (a, w)))) = requests w @ [url] \<and>
          fst (downloadFile en url dst p (a, w)) = Some (StatusError (StatusCode resp))) \<and>
         fst (downloadZip en url tf p (a, w)) \<noteq> None \<and>
         downloadedFiles (fst (snd (downloadZip en url tf p (a, w)))) = downloadedFiles a \<and>
         (requests (snd (snd (downloadZip en url tf p (a, w)))) = requests w \<or>
          requests (snd (snd (downloadZip en url tf p (a, w)))) = requests w @ [url] \<and>
          fst (downloadZip en url tf p (a, w)) = Some (StatusError (StatusCode resp)))"
proof -
  have ne: "StatusCode resp \<noteq> 200" using assms(2) by auto
  note f = downloadFile_status[OF assms(1) ne, of dst p a]
  note z = downloadZip_status[OF assms(1) ne, of tf p a]
  have "downloadedFiles (fst (snd (downloadFile en url dst p (a, w)))) = downloadedFiles a"
    using f(1) by (simp add: downloadFile_downloadedFiles)
  moreover have "downloadedFiles (fst (snd (downloadZip en url tf p (a, w)))) = downloadedFiles a"
    using z(1) by (simp add: downloadZip_downloadedFiles)
  ultimately show ?thesis
    using f(1,2) z(1,2) downloadFile_requests[of en url dst p a w] downloadZip_requests[of en url tf p a w]
    by blast
qed

theorem non2xx_status_fails_witness:
  "httpGet env404 (length (requests world0)) ''https://example.org/cfg/client.linux.json'' = Inr notFound \<and>
   299 < StatusCode notFound \<and>
   fst (downloadFile env404 ''https://example.org/cfg/client.linux.json'' ''client.json'' False (app0, world0))
     = Some (StatusError 404) \<and>
   downloadedFiles (fst (snd (downloadFile env404 ''https://example.org/cfg/client.linux.json''
       ''client.json'' False (app0, world0)))) = downloadedFiles app0 \<and>
   fst (downloadZip env404 ''https://example.org/cfg/client.linux.json'' ''client'' False (app0, world0))
     = Some (StatusError 404) \<and>
   downloadedFiles (fst (snd (downloadZip env404 ''https://example.org/cfg/client.linux.json''
       ''client'' False (app0, world0)))) = downloadedFiles app0"
proof -
  have h1: "httpGet env404 (length (requests world0)) ''https://example.org/cfg/client.linux.json'' = Inr notFound"
    by (simp add: env404_def)
  have h2: "StatusCode notFound < 200 \<or> 299 < StatusCode notFound" by (simp add: notFound_def)
  have e1: "fst (downloadFile env404 ''https://example.org/cfg/client.linux.json'' ''client.json'' False (app0, world0))
     = Some (StatusError 404)" by code_simp
  have e2: "fst (downloadZip env404 ''https://example.org/cfg/client.linux.json'' ''client'' False (app0, world0))
     = Some (StatusError 404)" by code_simp
  show ?thesis
    using non2xx_status_fails[OF h1 h2, where dst="''client.json''" and p=False and a=app0 and tf="''client''"] h1 e1 e2
    by (simp add: notFound_def)
qed

subsection \<open>The percentage is not clamped\<close>

theorem percent_above_100_counterexample:
  "0 < sint (totalBytes tied) \<and> sint (totalBytes tied) < sint (downloadedBytes tied) \<and>
   fst (DownloadPercent tied) = 100"
proof -
  have s1: "sint (9007199254740993 :: 64 word) = 9007199254740993" by simp
  have s2: "sint (9007199254740992 :: 64 word) = 9007199254740992" by simp
  have nz: "(9007199254740992 :: 64 word) \<noteq> 0" by simp
  show ?thesis
    using percent_tie by (simp add: tied_def DownloadPercent_def Let_def s1 s2 nz)
qed

text \<open>
  Claim C10, amended. \<open>DownloadPercent\<close> is not clamped to the range from 0 to 100.
  \<open>downloadZip\<close> assigns the total byte counter from the declared content length
  of a response with status 200, whatever it is (\<open>-1\<close> when the server declares
  none). With a total of \<open>-1\<close> and a positive done byte counter the result is
  negative. With a positive total and a done byte counter that is not smaller,
  the result is at least 100; it is above 100 when the done byte counter is larger
  than the total and at most \<open>2 ^ 53\<close> (beyond that the conversion to \<open>float64\<close> can
  round the two counters to the same number).
\<close>

theorem DownloadPercent_not_clamped:
  "(fst (os_MkdirAll en (Join [fst (appDirectory en a), tf]) w) = None \<longrightarrow>
    fst (os_Create en (Join [TempDir en, ''nordemon_download.zip''])
           (snd (os_MkdirAll en (Join [fst (appDirectory en a), tf]) w))) = None \<longrightarrow>
    httpGet en (length (requests w)) url = Inr resp \<longrightarrow> StatusCode resp = 200 \<longrightarrow>
      totalBytes (fst (snd (downloadZip en url tf p (a, w)))) = ContentLength resp) \<and>
   (totalBytes b = - 1 \<longrightarrow> 0 < sint (downloadedBytes b) \<longrightarrow> fst (DownloadPercent b) < 0) \<and>
   (0 < sint (totalBytes b) \<longrightarrow> sint (totalBytes b) \<le> sint (downloadedBytes b) \<longrightarrow>
      100 \<le> fst (DownloadPercent b)) \<and>
   (0 < sint (totalBytes b) \<longrightarrow> sint (totalBytes b) < sint (downloadedBytes b) \<longrightarrow>
      sint (downloadedBytes b) \<le> 2 ^ 53 \<longrightarrow> 100 < fst (DownloadPercent b))"
proof (intro conjI impI)
  assume "fst (os_MkdirAll en (Join [fst (appDirectory en a), tf]) w) = None"
    "fst (os_Create en (Join [TempDir en, ''nordemon_download.zip''])
           (snd (os_MkdirAll en (Join [fst (appDirectory en a), tf]) w))) = None"
    "httpGet en (length (requests w)) url = Inr resp" "StatusCode resp = 200"
  then show "totalBytes (fst (snd (downloadZip en url tf p (a, w)))) = ContentLength resp"
    by (rule downloadZip_totalBytes)
next
  assume t: "totalBytes b = - 1" and d: "0 < sint (downloadedBytes b)"
  have "totalBytes b \<noteq> 0" using t by simp
  then show "fst (DownloadPercent b) < 0"
    using percent_negative[OF d] t by (simp add: DownloadPercent_def Let_def)
next
  assume t: "0 < sint (totalBytes b)" and d: "sint (totalBytes b) \<le> sint (downloadedBytes b)"
  have "totalBytes b \<noteq> 0" using t by auto
  then show "100 \<le> fst (DownloadPercent b)"
    using percent_ge_100[OF t d] by (simp add: DownloadPercent_def Let_def)
next
  assume t: "0 < sint (totalBytes b)" and d: "sint (totalBytes b) < sint (downloadedBytes b)"
    and m: "sint (downloadedBytes b) \<le> 2 ^ 53"
  have "totalBytes b \<noteq> 0" using t by auto
  then show "100 < fst (DownloadPercent b)"
    using percent_gt_100[OF t d m] by (simp add: DownloadPercent_def Let_def)
qed

theorem DownloadPercent_not_clamped_witness:
  "totalBytes afterNoLength = - 1 \<and> 0 < sint (downloadedBytes afterNoLength) \<and>
   fst (DownloadPercent afterNoLength) < 0 \<and>
   0 < sint (totalBytes (app0\<lparr>totalBytes := 4, downloadedBytes := 5\<rparr>)) \<and>
   sint (totalBytes (app0\<lparr>totalBytes := 4, downloadedBytes := 5\<rparr>))
     < sint (downloadedBytes (app0\<lparr>totalBytes := 4, downloadedBytes := 5\<rparr>)) \<and>
   sint (downloadedBytes (app0\<lparr>totalBytes := 4, downloadedBytes := 5\<rparr>)) \<le> 2 ^ 53 \<and>
   100 < fst (DownloadPercent (app0\<lparr>totalBytes := 4, downloadedBytes := 5\<rparr>))"
proof -
  have m: "fst (os_MkdirAll envNoLength (Join [fst (appDirectory envNoLength app0), ''client'']) world0) = None"
    by (simp add: os_MkdirAll_def envNoLength_def env0_def)
  have c: "fst (os_Create envNoLength (Join [TempDir envNoLength, ''nordemon_download.zip''])
           (snd (os_MkdirAll envNoLength (Join [fst (appDirectory envNoLength app0), ''client'']) world0))) = None"
    by (simp add: os_Create_def envNoLength_def env0_def)
  have g: "httpGet envNoLength (length (requests world0)) ''https://example.org/cfg/client.zip''
      = Inr (cutOff\<lparr>Body := \<lparr>chunks = [''abc'', ''defg''], readErr = None\<rparr>\<rparr>)"
    by (simp add: envNoLength_def)
  have s: "StatusCode (cutOff\<lparr>Body := \<lparr>chunks = [''abc'', ''defg''], readErr = None\<rparr>\<rparr>) = 200"
    by (simp add: cutOff_def)
  have db: "downloadedBytes afterNoLength = 7" unfolding afterNoLength_def by code_simp
  have t1: "totalBytes afterNoLength = - 1"
    using DownloadPercent_not_clamped[of envNoLength app0 "''client''" world0
        "''https://example.org/cfg/client.zip''" _ True] m c g s
    by (simp add: afterNoLength_def cutOff_def)
  have d1: "0 < sint (downloadedBytes afterNoLength)" by (simp add: db)
  show ?thesis
    using DownloadPercent_not_clamped[of _ _ _ _ _ _ _ afterNoLength]
          DownloadPercent_not_clamped[of _ _ _ _ _ _ _ "app0\<lparr>totalBytes := 4, downloadedBytes := 5\<rparr>"]
          t1 d1
    by simp
qed

subsection \<open>Diff planning\<close>

lemma appDirectory_appName: "appName a' = appName a \<Longrightarrow> fst (appDirectory en a') = fst (appDirectory en a)"
  by (simp add: appDirectory_def split: sum.splits)

lemma checkFile_result:
  assumes "appName b = appName a"
  shows "fst (checkFile en w file (fs, b)) = (if planned en (a, w) file then fs @ [file] else fs)"
    and "appName (snd (checkFile en w file (fs, b))) = appName a"
  using assms appDirectory_appName[OF assms, of en]
  by (auto simp: checkFile_def planned_def localPath_def Let_def case_prod_beta split: sum.splits)

lemma foldl_checkFile:
  assumes "appName b = appName a"
  shows "fst (foldl (\<lambda>st i. if i < length xs then checkFile en w (xs ! i) st else st) (acc, b) sched)
     = acc @ filter (planned en (a, w)) (map (\<lambda>i. xs ! i) (filter (\<lambda>i. i < length xs) sched))"
  using assms
proof (induction sched arbitrary: acc b)
  case Nil
  then show ?case by simp
next
  case (Cons i sched)
  show ?case
  proof (cases "i < length xs")
    case True
    obtain fs' b' where st: "checkFile en w (xs ! i) (acc, b) = (fs', b')"
      by (cases "checkFile en w (xs ! i) (acc, b)")
    have f: "fs' = (if planned en (a, w) (xs ! i) then acc @ [xs ! i] else acc)"
      using checkFile_result(1)[OF Cons.prems, of en w "xs ! i" acc] st by simp
    have n: "appName b' = appName a"
      using checkFile_result(2)[OF Cons.prems, of en w "xs ! i" acc] st by simp
    show ?thesis using True st f Cons.IH[OF n, of fs'] by simp
  next
    case False
    then show ?thesis using Cons.IH[OF Cons.prems, of acc] by simp
  qed
qed

lemma sched_perm:
  assumes "mset sched = mset [0..<length xs]"
  shows "mset (map (\<lambda>i. xs ! i) (filter (\<lambda>i. i < length xs) sched)) = mset xs"
proof -
  have "set sched = set [0..<length xs]" using assms by (rule mset_eq_setD)
  then have "filter (\<lambda>i. i < length xs) sched = sched" by (auto simp: filter_id_conv)
  then have "mset (map (\<lambda>i. xs ! i) (filter (\<lambda>i. i < length xs) sched))
      = image_mset (\<lambda>i. xs ! i) (mset sched)" by simp
  also have "\<dots> = mset (map (\<lambda>i. xs ! i) [0..<length xs])" using assms by simp
  also have "\<dots> = mset xs" by (simp add: map_nth)
  finally show ?thesis .
qed

lemma filesToUpdate_plan:
  assumes "mset sched = mset [0..<length (AssetsInfo_Files (assetsInfo a) @ ClientInfo_Files (clientInfo a))]"
  shows "mset (fst (fst (filesToUpdate en sched (a, w))))
     = filter_mset (planned en (a, w))
         (mset (AssetsInfo_Files (assetsInfo a) @ ClientInfo_Files (clientInfo a)))"
    and "snd (fst (filesToUpdate en sched (a, w))) = None"
proof -
  define xs where "xs = AssetsInfo_Files (assetsInfo a) @ ClientInfo_Files (clientInfo a)"
  have "fst (fst (filesToUpdate en sched (a, w)))
     = filter (planned en (a, w)) (map (\<lambda>i. xs ! i) (filter (\<lambda>i. i < length xs) sched))"
    unfolding xs_def
    using foldl_checkFile[of a a "AssetsInfo_Files (assetsInfo a) @ ClientInfo_Files (clientInfo a)" en w "[]" sched]
    by (simp add: filesToUpdate_def Let_def case_prod_beta cong: if_cong)
  then have "mset (fst (fst (filesToUpdate en sched (a, w))))
     = filter_mset (planned en (a, w)) (mset (map (\<lambda>i. xs ! i) (filter (\<lambda>i. i < length xs) sched)))"
    by simp
  also have "\<dots> = filter_mset (planned en (a, w)) (mset xs)"
    using sched_perm[of sched xs] assms by (simp only: xs_def)
  finally show "mset (fst (fst (filesToUpdate en sched (a, w))))
     = filter_mset (planned en (a, w))
         (mset (AssetsInfo_Files (assetsInfo a) @ ClientInfo_Files (clientInfo a)))"
    by (simp only: xs_def)
  show "snd (fst (filesToUpdate en sched (a, w))) = None"
    by (simp add: filesToUpdate_def Let_def case_prod_beta cong: if_cong)
qed


text \<open>
  Claim C3. When no check of a local file fails (every entry whose local file
  exists has a digest), \<open>filesToUpdate\<close> returns, in whatever order the goroutines
  append, exactly the entries of the assets manifest followed by the client
  manifest whose local file is absent or whose local digest differs from
  \<open>UnpackedHash\<close>, each as often as it is listed, and no error; an entry whose file
  exists with the listed digest is not returned.
\<close>

theorem filesToUpdate_exact:
  assumes "mset sched = mset [0..<length (AssetsInfo_Files (assetsInfo a) @ ClientInfo_Files (clientInfo a))]"
      and "\<forall>f \<in> set (AssetsInfo_Files (assetsInfo a) @ ClientInfo_Files (clientInfo a)).
             fileExists en w (localPath en a f) \<longrightarrow> (\<exists>h. sha256Sum en (localPath en a f) w = Inr h)"
  shows "mset (fst (fst (filesToUpdate en sched (a, w))))
           = filter_mset (\<lambda>f. \<not> fileExists en w (localPath en a f) \<or>
                               sha256Sum en (localPath en a f) w \<noteq> Inr (UnpackedHash f))
               (mset (AssetsInfo_Files (assetsInfo a) @ ClientInfo_Files (clientInfo a))) \<and>
         set (fst (fst (filesToUpdate en sched (a, w))))
           = {f \<in> set (AssetsInfo_Files (assetsInfo a) @ ClientInfo_Files (clientInfo a)).
                \<not> fileExists en w (localPath en a f) \<or>
                sha256Sum en (localPath en a f) w \<noteq> Inr (UnpackedHash f)} \<and>
         snd (fst (filesToUpdate en sched (a, w))) = None"
proof -
  define xs where "xs = AssetsInfo_Files (assetsInfo a) @ ClientInfo_Files (clientInfo a)"
  define P where "P = (\<lambda>f. \<not> fileExists en w (localPath en a f) \<or>
                               sha256Sum en (localPath en a f) w \<noteq> Inr (UnpackedHash f))"
  have pl: "planned en (a, w) f = P f" if "f \<in> set xs" for f
  proof (cases "fileExists en w (localPath en a f)")
    case True
    have "f \<in> set (AssetsInfo_Files (assetsInfo a) @ ClientInfo_Files (clientInfo a))"
      using that by (simp only: xs_def)
    with assms(2) True obtain h where "sha256Sum en (localPath en a f) w = Inr h" by blast
    then show ?thesis using True by (simp add: planned_def P_def)
  next
    case False
    then show ?thesis by (simp add: planned_def P_def)
  qed
  have "filter_mset (planned en (a, w)) (mset xs) = filter_mset P (mset xs)"
    by (rule filter_mset_cong) (simp_all add: pl)
  then have m: "mset (fst (fst (filesToUpdate en sched (a, w)))) = filter_mset P (mset xs)"
    using filesToUpdate_plan(1)[OF assms(1), of en w] by (simp add: xs_def)
  have "set (fst (fst (filesToUpdate en sched (a, w)))) = set_mset (filter_mset P (mset xs))"
    using m by (metis set_mset_mset)
  then have s: "set (fst (fst (filesToUpdate en sched (a, w)))) = {f \<in> set xs. P f}" by simp
  show ?thesis
    using m s filesToUpdate_plan(2)[OF assms(1), of en w] by (simp add: xs_def P_def)
qed

theorem filesToUpdate_exact_witness:
  "fst (fst (filesToUpdate env0 [2, 0, 1] (app1, world1))) = [fC, fB] \<and>
   set (fst (fst (filesToUpdate env0 [2, 0, 1] (app1, world1))))
     = {f \<in> set (AssetsInfo_Files (assetsInfo app1) @ ClientInfo_Files (clientInfo app1)).
          \<not> fileExists env0 world1 (localPath env0 app1 f) \<or>
          sha256Sum env0 (localPath env0 app1 f) world1 \<noteq> Inr (UnpackedHash f)} \<and>
   snd (fst (filesToUpdate env0 [2, 0, 1] (app1, world1))) = None"
proof -
  have fs: "AssetsInfo_Files (assetsInfo app1) @ ClientInfo_Files (clientInfo app1) = [fA, fB, fC]"
    by (simp add: app1_def)
  have p: "mset [2, 0, 1] = mset [0..<length (AssetsInfo_Files (assetsInfo app1) @ ClientInfo_Files (clientInfo app1))]"
    unfolding fs by (simp add: upt_rec)
  have a: "sha256Sum env0 (localPath env0 app1 fA) world1 = Inr ''aaa''" by code_simp
  have b: "sha256Sum env0 (localPath env0 app1 fB) world1 = Inr ''old''" by code_simp
  have c: "\<not> fileExists env0 world1 (localPath env0 app1 fC)" by code_simp
  have ok: "\<forall>f \<in> set (AssetsInfo_Files (assetsInfo app1) @ ClientInfo_Files (clientInfo app1)).
             fileExists env0 world1 (localPath env0 app1 f)
               \<longrightarrow> (\<exists>h. sha256Sum env0 (localPath env0 app1 f) world1 = Inr h)"
    unfolding fs using a b c by simp
  have r: "fst (fst (filesToUpdate env0 [2, 0, 1] (app1, world1))) = [fC, fB]" by code_simp
  show ?thesis using filesToUpdate_exact[OF p ok] r by simp
qed

text \<open>
  Claim C7. An entry whose local file exists but cannot be opened or read is left
  out of the plan, and the computation goes on: the error result of
  \<open>filesToUpdate\<close> is nil, and every entry is in the plan exactly when its own check
  says so (its file is absent, or its digest was computed and differs).
\<close>

theorem filesToUpdate_skips_errors:
  assumes "mset sched = mset [0..<length (AssetsInfo_Files (assetsInfo a) @ ClientInfo_Files (clientInfo a))]"
      and "f \<in> set (AssetsInfo_Files (assetsInfo a) @ ClientInfo_Files (clientInfo a))"
      and "fileExists en w (localPath en a f)"
      and "sha256Sum en (localPath en a f) w = Inl e"
  shows "f \<notin> set (fst (fst (filesToUpdate en sched (a, w)))) \<and>
         snd (fst (filesToUpdate en sched (a, w))) = None \<and>
         (\<forall>g \<in> set (AssetsInfo_Files (assetsInfo a) @ ClientInfo_Files (clientInfo a)).
            (g \<in> set (fst (fst (filesToUpdate en sched (a, w))))) = planned en (a, w) g)"
proof -
  have "set (fst (fst (filesToUpdate en sched (a, w))))
      = set_mset (filter_mset (planned en (a, w))
          (mset (AssetsInfo_Files (assetsInfo a) @ ClientInfo_Files (clientInfo a))))"
    using filesToUpdate_plan(1)[OF assms(1), of en w] by (metis set_mset_mset)
  then have s: "set (fst (fst (filesToUpdate en sched (a, w))))
      = {g \<in> set (AssetsInfo_Files (assetsInfo a) @ ClientInfo_Files (clientInfo a)). planned en (a, w) g}"
    by auto
  have "\<not> planned en (a, w) f" using assms(3,4) by (simp add: planned_def)
  then show ?thesis using s filesToUpdate_plan(2)[OF assms(1), of en w] by auto
qed

theorem filesToUpdate_skips_errors_witness:
  "fileExists envBadDisk world1 (localPath envBadDisk app1 fA) \<and>
   sha256Sum envBadDisk (localPath envBadDisk app1 fA) world1 = Inl (LibError ''input/output error'') \<and>
   fst (fst (filesToUpdate envBadDisk [1, 2, 0] (app1, world1))) = [fB, fC] \<and>
   fA \<notin> set (fst (fst (filesToUpdate envBadDisk [1, 2, 0] (app1, world1)))) \<and>
   snd (fst (filesToUpdate envBadDisk [1, 2, 0] (app1, world1))) = None"
proof -
  have fs: "AssetsInfo_Files (assetsInfo app1) @ ClientInfo_Files (clientInfo app1) = [fA, fB, fC]"
    by (simp add: app1_def)
  have p: "mset [1, 2, 0] = mset [0..<length (AssetsInfo_Files (assetsInfo app1) @ ClientInfo_Files (clientInfo app1))]"
    unfolding fs by (simp add: upt_rec)
  have m: "fA \<in> set (AssetsInfo_Files (assetsInfo app1) @ ClientInfo_Files (clientInfo app1))"
    unfolding fs by simp
  have x: "fileExists envBadDisk world1 (localPath envBadDisk app1 fA)" by code_simp
  have s: "sha256Sum envBadDisk (localPath envBadDisk app1 fA) world1 = Inl (LibError ''input/output error'')"
    by code_simp
  have r: "fst (fst (filesToUpdate envBadDisk [1, 2, 0] (app1, world1))) = [fB, fC]" by code_simp
  show ?thesis using filesToUpdate_skips_errors[OF p m x s] x s r by simp
qed

subsection \<open>Version check and update\<close>

lemma NeedsUpdate_compare:
  assumes "httpGet en (length (requests w)) (versionURL a) = Inr resp"
      and "readErr (Body resp) = None"
      and "fileExists en (snd (http_Get en (versionURL a) w)) (versionPath en a)"
      and "os_ReadFile en (versionPath en a) (snd (http_Get en (versionURL a) w)) = Inr localBytes"
  shows "fst (NeedsUpdate en (a, w))
           = (TrimSpace localBytes \<noteq> TrimSpace (concat (chunks (Body resp))))"
  using assms
  by (simp add: NeedsUpdate_def Let_def case_prod_beta http_Get_def versionURL_def versionPath_def
        io_ReadAll_def)


lemma removeOldFolders_fields [simp]:
  "baseURL (fst (removeOldFolders en fs (a, w))) = baseURL a"
  "appName (fst (removeOldFolders en fs (a, w))) = appName a"
  by (induction fs arbitrary: a w) (simp_all add: Let_def case_prod_beta)

lemma downloadZip_names [simp]:
  "baseURL (fst (snd (downloadZip en url tf p (a, w)))) = baseURL a"
  "appName (fst (snd (downloadZip en url tf p (a, w)))) = appName a"
  by (rule downloadZip_outcome[where en=en and url=url and tf=tf and p=p and a=a and w=w];
      simp add: io_Copy_eq_fields)+

text \<open>The exits of \<open>Update\<close>, each with the entry it logs last.\<close>

lemma Update_outcome:
  fixes en a w
  defines "U \<equiv> Update en (a, w)"
  obtains
    (geturl) e b w2 where "U = (Log (Errorf ''Error fetching download URL: %v'' [E e]) b, w2)"
  | (readurl) e b w2 where "U = (Log (Errorf ''Error reading download URL: %v'' [E e]) b, w2)"
  | (zip) e b w3 where "U = (Log (Errorf ''Error downloading client ZIP: %v'' [E e]) b, w3)"
  | (noversion) b w4 where
      "U = (Log (Infof ''Client ZIP downloaded and extracted successfully!'' []) b, w4)"
  | (saved) b vb w4 where
      "U = (Log (Infof ''Saved client version: %s'' [S (TrimSpace vb)]) b,
            snd (os_WriteFile en (versionPath en a) vb w4))"
      "appName b = appName a" "baseURL b = baseURL a"
proof -
  define a3 where "a3 = Log (Infof ''Cleaning old client folders...'' [])
     ((Log (Infof ''Downloading full client ZIP...'' []) a)
        \<lparr>totalFiles := 1, totalBytes := 0, downloadedFiles := 0, downloadedBytes := 0\<rparr>)"
  obtain a4 w1 where ro: "removeOldFolders en clientFolders (a3, w) = (a4, w1)"
    by (cases "removeOldFolders en clientFolders (a3, w)")
  from ro have a4eq: "a4 = fst (removeOldFolders en clientFolders (a3, w))" by simp
  have n4: "appName a4 = appName a" "baseURL a4 = baseURL a"
    unfolding a4eq by (simp_all add: a3_def)
  define a5 where "a5 = Log (Infof ''Fetching download URL from: %s'' [S (baseURL a4 @ ''client_download_url.txt'')]) a4"
  obtain g w2 where hg: "http_Get en (baseURL a4 @ ''client_download_url.txt'') w1 = (g, w2)"
    by (cases "http_Get en (baseURL a4 @ ''client_download_url.txt'') w1")
  note start = U_def Update_def Let_def a3_def[symmetric] ro a5_def[symmetric] hg
  show ?thesis
  proof (cases g)
    case (Inl e)
    then have "U = (Log (Errorf ''Error fetching download URL: %v'' [E e]) a5, w2)"
      by (simp add: start)
    then show ?thesis by (rule geturl)
  next
    case (Inr resp)
    show ?thesis
    proof (cases "readErr (Body resp)")
      case (Some e)
      then have "U = (Log (Errorf ''Error reading download URL: %v'' [E e]) a5, w2)"
        using Inr by (simp add: start io_ReadAll_def)
      then show ?thesis by (rule readurl)
    next
      case None
      note rN = this
      define zipURL where "zipURL = TrimSpace (concat (chunks (Body resp)))"
      define a6 where "a6 = Log (Infof ''ZIP URL: %s'' [S zipURL]) a5"
      obtain z a7 w3 where dz: "downloadZip en zipURL ''client'' True (a6, w2) = (z, a7, w3)"
        by (cases "downloadZip en zipURL ''client'' True (a6, w2)")
      from dz have a7eq: "a7 = fst (snd (downloadZip en zipURL ''client'' True (a6, w2)))" by simp
      have n7: "appName a7 = appName a" "baseURL a7 = baseURL a"
        unfolding a7eq using n4 by (simp_all add: a6_def a5_def)
      note mid = start Inr io_ReadAll_def rN zipURL_def[symmetric] a6_def[symmetric] dz
      show ?thesis
      proof (cases z)
        case (Some e)
        then have "U = (Log (Errorf ''Error downloading client ZIP: %v'' [E e]) a7, w3)"
          by (simp add: mid)
        then show ?thesis by (rule zip)
      next
        case None
        note zN = this
        define a8 where "a8 = Log (Infof ''Client ZIP downloaded and extracted successfully!'' []) a7"
        obtain g2 w4 where hg2: "http_Get en (baseURL a7 @ ''client_version.txt'') w3 = (g2, w4)"
          by (cases "http_Get en (baseURL a7 @ ''client_version.txt'') w3")
        note fin = mid zN hg2 a8_def
        show ?thesis
        proof (cases g2)
          case (Inl e)
          then have "U = (a8, w4)" by (simp add: fin)
          then show ?thesis unfolding a8_def by (rule noversion)
        next
          case (Inr resp2)
          show ?thesis
          proof (cases "readErr (Body resp2)")
            case (Some e)
            then have "U = (a8, w4)" using Inr by (simp add: fin)
            then show ?thesis unfolding a8_def by (rule noversion)
          next
            case None
            obtain dir a9 where ad:
              "appDirectory en (Log (Infof ''Client ZIP downloaded and extracted successfully!'' []) a7) = (dir, a9)"
              by (cases "appDirectory en (Log (Infof ''Client ZIP downloaded and extracted successfully!'' []) a7)")
            have "dir = fst (appDirectory en (Log (Infof ''Client ZIP downloaded and extracted successfully!'' []) a7))"
              using ad by simp
            then have vp: "Join [dir, ''client_version.txt''] = versionPath en a"
              using n7 by (simp add: versionPath_def appDirectory_appName[of a7 a])
            have "U = (Log (Infof ''Saved client version: %s'' [S (TrimSpace (concat (chunks (Body resp2))))]) a9,
                       snd (os_WriteFile en (versionPath en a) (concat (chunks (Body resp2))) w4))"
              using Inr None vp by (simp add: fin ad)
            moreover have "a9 = snd (appDirectory en (Log (Infof ''Client ZIP downloaded and extracted successfully!'' []) a7))"
              using ad by simp
            then have "appName a9 = appName a" "baseURL a9 = baseURL a" using n7 by simp_all
            ultimately show ?thesis by (rule saved)
          qed
        qed
      qed
    qed
  qed
qed

lemma Update_saved:
  assumes "last (logger (fst (Update en (a, w)))) = Infof ''Saved client version: %s'' args"
  shows "\<exists>vb w4. args = [S (TrimSpace vb)] \<and>
           snd (Update en (a, w)) = snd (os_WriteFile en (versionPath en a) vb w4) \<and>
           appName (fst (Update en (a, w))) = appName a \<and>
           baseURL (fst (Update en (a, w))) = baseURL a"
  using assms by (rule_tac Update_outcome[of en a w]) auto

text \<open>
  Claim C5. When the request for the remote version file is answered and its body
  is read, and the local version file exists and is read, \<open>NeedsUpdate\<close> returns
  true exactly when the two contents differ after \<open>strings.TrimSpace\<close>. After an
  \<open>Update\<close> that got as far as saving the version (its last log entry says so) and
  whose write of the version file did not fail, a \<open>NeedsUpdate\<close> that is served the
  same version token (up to surrounding white space) and can read the local file
  returns false.
\<close>

theorem NeedsUpdate_version_compare:
  "(httpGet en (length (requests w)) (versionURL a) = Inr resp \<longrightarrow>
    readErr (Body resp) = None \<longrightarrow>
    fileExists en (snd (http_Get en (versionURL a) w)) (versionPath en a) \<longrightarrow>
    os_ReadFile en (versionPath en a) (snd (http_Get en (versionURL a) w)) = Inr localBytes \<longrightarrow>
      fst (NeedsUpdate en (a, w))
        = (TrimSpace localBytes \<noteq> TrimSpace (concat (chunks (Body resp))))) \<and>
   (last (logger (fst (Update en (a, w)))) = Infof ''Saved client version: %s'' [S v] \<longrightarrow>
    (\<forall>w'. fault en (SysWriteFile (versionPath en a)) w' = None \<and>
          fault en (SysStat (versionPath en a)) w' = None \<and>
          fault en (SysReadFile (versionPath en a)) w' = None) \<longrightarrow>
    httpGet en (length (requests (snd (Update en (a, w))))) (versionURL a) = Inr resp' \<longrightarrow>
    readErr (Body resp') = None \<longrightarrow>
    TrimSpace (concat (chunks (Body resp'))) = v \<longrightarrow>
      fst (NeedsUpdate en (Update en (a, w))) = False)"
proof (intro conjI impI)
  assume "httpGet en (length (requests w)) (versionURL a) = Inr resp"
    "readErr (Body resp) = None"
    "fileExists en (snd (http_Get en (versionURL a) w)) (versionPath en a)"
    "os_ReadFile en (versionPath en a) (snd (http_Get en (versionURL a) w)) = Inr localBytes"
  then show "fst (NeedsUpdate en (a, w))
        = (TrimSpace localBytes \<noteq> TrimSpace (concat (chunks (Body resp))))"
    by (rule NeedsUpdate_compare)
next
  assume sv: "last (logger (fst (Update en (a, w)))) = Infof ''Saved client version: %s'' [S v]"
    and nf: "\<forall>w'. fault en (SysWriteFile (versionPath en a)) w' = None \<and>
          fault en (SysStat (versionPath en a)) w' = None \<and>
          fault en (SysReadFile (versionPath en a)) w' = None"
    and g: "httpGet en (length (requests (snd (Update en (a, w))))) (versionURL a) = Inr resp'"
    and r: "readErr (Body resp') = None"
    and t: "TrimSpace (concat (chunks (Body resp'))) = v"
  obtain a' w' where U: "Update en (a, w) = (a', w')" by (cases "Update en (a, w)")
  from Update_saved[OF sv] U obtain vb w4 where
    v: "v = TrimSpace vb" and w': "w' = snd (os_WriteFile en (versionPath en a) vb w4)"
    and nm: "appName a' = appName a" "baseURL a' = baseURL a"
    by auto
  have vu: "versionURL a' = versionURL a" using nm by (simp add: versionURL_def)
  have vp: "versionPath en a' = versionPath en a"
    using nm by (simp add: versionPath_def appDirectory_appName[of a' a])
  have fl: "files (snd (http_Get en (versionURL a) w')) (versionPath en a) = Some vb"
    using nf by (simp add: w' os_WriteFile_def http_Get_def)
  have ex: "fileExists en (snd (http_Get en (versionURL a') w')) (versionPath en a')"
    using nf fl by (simp add: vu vp fileExists_def os_Stat_def)
  have rd: "os_ReadFile en (versionPath en a') (snd (http_Get en (versionURL a') w')) = Inr vb"
    using nf fl by (simp add: vu vp os_ReadFile_def)
  have g': "httpGet en (length (requests w')) (versionURL a') = Inr resp'"
    using g U by (simp add: vu)
  have "fst (NeedsUpdate en (a', w')) = (TrimSpace vb \<noteq> TrimSpace (concat (chunks (Body resp'))))"
    using g' r ex rd by (rule NeedsUpdate_compare)
  then show "fst (NeedsUpdate en (Update en (a, w))) = False"
    using U v t by simp
qed

theorem NeedsUpdate_version_compare_witness:
  "fst (NeedsUpdate envRelease (app0, worldOld)) = True \<and>
   last (logger (fst (Update envRelease (app0, worldOld))))
     = Infof ''Saved client version: %s'' [S ''2.3.1''] \<and>
   fst (NeedsUpdate envRelease (Update envRelease (app0, worldOld))) = False"
proof -
  have vu: "versionURL app0 = ''https://example.org/cfg/client_version.txt''" by code_simp
  have vp: "versionPath envRelease app0 = ''/home/u/.config/launcher/client_version.txt''" by code_simp
  have n1: "fst (NeedsUpdate envRelease (app0, worldOld)) = True" by code_simp
  have sv: "last (logger (fst (Update envRelease (app0, worldOld))))
     = Infof ''Saved client version: %s'' [S ''2.3.1'']" by code_simp
  have nf: "\<forall>w'. fault envRelease (SysWriteFile (versionPath envRelease app0)) w' = None \<and>
          fault envRelease (SysStat (versionPath envRelease app0)) w' = None \<and>
          fault envRelease (SysReadFile (versionPath envRelease app0)) w' = None"
    by (simp add: envRelease_def env0_def)
  have g: "httpGet envRelease (length (requests (snd (Update envRelease (app0, worldOld))))) (versionURL app0)
      = Inr \<lparr>StatusCode = 200, ContentLength = 6,
             Body = \<lparr>chunks = [''2.3.1'' @ [CHR 0x0A]], readErr = None\<rparr>\<rparr>"
    by (simp add: envRelease_def vu release_def)
  have t: "TrimSpace (concat (chunks (Body \<lparr>StatusCode = 200, ContentLength = 6,
             Body = \<lparr>chunks = [''2.3.1'' @ [CHR 0x0A]], readErr = None\<rparr>\<rparr>))) = ''2.3.1''"
    by code_simp
  show ?thesis
    using NeedsUpdate_version_compare[of envRelease worldOld app0 _ _ "''2.3.1''"
            "\<lparr>StatusCode = 200, ContentLength = 6,
               Body = \<lparr>chunks = [''2.3.1'' @ [CHR 0x0A]], readErr = None\<rparr>\<rparr>"]
          n1 sv nf g t
    by simp
qed

subsection \<open>Manifest refresh\<close>

text \<open>The world that \<open>downloadFile\<close> leaves depends on the \<open>App\<close> only through the
  application's name.\<close>

lemma downloadFile_world:
  assumes "appName b = appName a"
  shows "snd (snd (downloadFile en url dst False (b, w))) = snd (snd (downloadFile en url dst False (a, w)))"
    and "fst (downloadFile en url dst False (b, w)) = fst (downloadFile en url dst False (a, w))"
proof -
  have d: "fst (appDirectory en b) = fst (appDirectory en a)"
    using assms by (rule appDirectory_appName)
  have io: "snd (snd (io_Copy en out (teeWrite False) cs rerr (x, w'))) = snd (snd (io_Copy en out (teeWrite False) cs rerr (y, w')))
     \<and> fst (io_Copy en out (teeWrite False) cs rerr (x, w')) = fst (io_Copy en out (teeWrite False) cs rerr (y, w'))"
    for out cs rerr x y w'
  proof (induction cs arbitrary: x y w')
    case Nil
    then show ?case by simp
  next
    case (Cons c cs)
    show ?case
    proof (cases "os_Write en out c w'")
      case (Pair r w'')
      then show ?thesis using Cons.IH[where x="teeWrite False c x" and y="teeWrite False c y" and w'=w'']
        by (cases r) (simp_all add: Let_def)
    qed
  qed
  have lz: "snd (snd (lzma_Copy en out False ss n e cs (x, w'))) = snd (snd (lzma_Copy en out False ss n e cs (y, w')))
     \<and> fst (lzma_Copy en out False ss n e cs (x, w')) = fst (lzma_Copy en out False ss n e cs (y, w'))"
    for out ss n e cs x y w'
  proof (induction ss arbitrary: cs x y w')
    case Nil
    then show ?case by simp
  next
    case (Cons nc ss)
    obtain m c where nc: "nc = (m, c)" by (cases nc)
    show ?case
    proof (cases "os_Write en out c w'")
      case (Pair r w'')
      then show ?thesis
        using Cons.IH[where cs="drop m cs" and x="foldl (\<lambda>a c. teeWrite False c a) x (take m cs)"
                and y="foldl (\<lambda>a c. teeWrite False c a) y (take m cs)" and w'=w'']
        by (cases r) (simp_all add: nc pullReads_eq)
    qed
  qed
  show "snd (snd (downloadFile en url dst False (b, w))) = snd (snd (downloadFile en url dst False (a, w)))"
    using io lz
    by (rule_tac downloadFile_outcome[where en=en and url=url and dname=dst and p=False and a=a and w=w];
        rule_tac downloadFile_outcome[where en=en and url=url and dname=dst and p=False and a=b and w=w])
       (simp_all add: d)
  show "fst (downloadFile en url dst False (b, w)) = fst (downloadFile en url dst False (a, w))"
    using io lz
    by (rule_tac downloadFile_outcome[where en=en and url=url and dname=dst and p=False and a=a and w=w];
        rule_tac downloadFile_outcome[where en=en and url=url and dname=dst and p=False and a=b and w=w])
       (simp_all add: d)
qed


lemma downloadFile_eq_fields:
  assumes "downloadFile en url dst p (a, w) = (e, a1, w1)"
  shows "appName a1 = appName a" "baseURL a1 = baseURL a" "clientInfo a1 = clientInfo a"
    "assetsInfo a1 = assetsInfo a"
  using downloadFile_fields[of en url dst p a w] assms by simp_all

lemma appDirectory_eq:
  assumes "appDirectory en b = (dir, b')"
  shows "appName b' = appName b" "baseURL b' = baseURL b" "clientInfo b' = clientInfo b"
    "assetsInfo b' = assetsInfo b" "dir = fst (appDirectory en b)"
  using appDirectory_fields[of en b] assms by simp_all

text \<open>What \<open>refreshManifests\<close> leaves: the world after the two downloads, and in memory
  whatever \<open>readJSON\<close> left in each manifest after its download.\<close>

lemma refreshManifests_result:
  fixes en a w
  defines "w1 \<equiv> snd (snd (downloadFile en (clientURL en a) ''client.json'' False (a, w)))"
  defines "w2 \<equiv> snd (snd (downloadFile en (assetsURL en a) ''assets.json'' False (a, w1)))"
  shows "snd (refreshManifests en (a, w)) = w2"
    and "clientInfo (fst (refreshManifests en (a, w)))
           = snd (readJSON en (jsonClient en) (manifestPath en a ''client.json'') (clientInfo a) w1)"
    and "assetsInfo (fst (refreshManifests en (a, w)))
           = snd (readJSON en (jsonAssets en) (manifestPath en a ''assets.json'') (assetsInfo a) w2)"
proof -
  obtain e1 a1 v1 where d1:
    "downloadFile en (baseURL a @ remoteClientJSON en) ''client.json'' False (a, w) = (e1, a1, v1)"
    by (cases "downloadFile en (baseURL a @ remoteClientJSON en) ''client.json'' False (a, w)")
  define a2 where "a2 = (case e1 of
      Some e \<Rightarrow> Log (Errorf ''Error downloading %s: %v'' [S (remoteClientJSON en), E e]) a1
    | None \<Rightarrow> a1)"
  obtain dir1 a3 where ad1: "appDirectory en a2 = (dir1, a3)" by (cases "appDirectory en a2")
  define a4 where "a4 = Log (Infof ''Reading client manifest from: %s'' [S (Join [dir1, ''client.json''])]) a3"
  obtain err2 ci where rj1:
    "readJSON en (jsonClient en) (Join [dir1, ''client.json'']) (clientInfo a4) v1 = (err2, ci)"
    by (cases "readJSON en (jsonClient en) (Join [dir1, ''client.json'']) (clientInfo a4) v1")
  define a6 where "a6 = (case err2 of
      Some e \<Rightarrow> Log (Errorf ''Error reading %s: %v'' [S ''client.json'', E e]) (a4\<lparr>clientInfo := ci\<rparr>)
    | None \<Rightarrow> Log (Infof ''Successfully loaded client.json: version=%s, files=%d''
                  [S (ClientInfo_Version ci), I (int (length (ClientInfo_Files ci)))])
                (a4\<lparr>clientInfo := ci\<rparr>))"
  obtain e3 a7 v2 where d2:
    "downloadFile en (baseURL a6 @ remoteAssetsJSON en) ''assets.json'' False (a6, v1) = (e3, a7, v2)"
    by (cases "downloadFile en (baseURL a6 @ remoteAssetsJSON en) ''assets.json'' False (a6, v1)")
  define a8 where "a8 = (case e3 of
      Some e \<Rightarrow> Log (Errorf ''Error downloading %s: %v'' [S (remoteAssetsJSON en), E e]) a7
    | None \<Rightarrow> a7)"
  obtain dir2 a9 where ad2: "appDirectory en a8 = (dir2, a9)" by (cases "appDirectory en a8")
  define a10 where "a10 = Log (Infof ''Reading assets manifest from: %s'' [S (Join [dir2, ''assets.json''])]) a9"
  obtain err4 ai where rj2:
    "readJSON en (jsonAssets en) (Join [dir2, ''assets.json'']) (assetsInfo a10) v2 = (err4, ai)"
    by (cases "readJSON en (jsonAssets en) (Join [dir2, ''assets.json'']) (assetsInfo a10) v2")
  define a12 where "a12 = (case err4 of
      Some e \<Rightarrow> Log (Errorf ''Error reading %s: %v'' [S ''assets.json'', E e]) (a10\<lparr>assetsInfo := ai\<rparr>)
    | None \<Rightarrow> Log (Infof ''Successfully loaded assets.json: version=%s, files=%d''
                  [I (AssetsInfo_Version ai), I (int (length (AssetsInfo_Files ai)))])
                (a10\<lparr>assetsInfo := ai\<rparr>))"
  have R: "refreshManifests en (a, w) = (a12, v2)"
    unfolding refreshManifests_def Let_def
    by (simp only: fst_conv d1 prod.case a2_def[symmetric] ad1 a4_def[symmetric] rj1
          a6_def[symmetric] d2 a8_def[symmetric] ad2 a10_def[symmetric] rj2 a12_def[symmetric])
  have f2: "appName a2 = appName a" "baseURL a2 = baseURL a" "clientInfo a2 = clientInfo a"
      "assetsInfo a2 = assetsInfo a"
    using downloadFile_eq_fields[OF d1] by (simp_all add: a2_def split: option.splits)
  have f4: "appName a4 = appName a" "baseURL a4 = baseURL a" "clientInfo a4 = clientInfo a"
      "assetsInfo a4 = assetsInfo a"
    using appDirectory_eq[OF ad1] f2 by (simp_all add: a4_def)
  have p1: "Join [dir1, ''client.json''] = manifestPath en a ''client.json''"
    using appDirectory_eq(5)[OF ad1] f2 by (simp add: manifestPath_def appDirectory_appName[of a2 a])
  have f6: "appName a6 = appName a" "baseURL a6 = baseURL a" "clientInfo a6 = ci"
      "assetsInfo a6 = assetsInfo a"
    using f4 by (simp_all add: a6_def split: option.splits)
  have f8: "appName a8 = appName a" "assetsInfo a8 = assetsInfo a" "clientInfo a8 = ci"
    using downloadFile_eq_fields[OF d2] f6 by (simp_all add: a8_def split: option.splits)
  have f10: "assetsInfo a10 = assetsInfo a" "clientInfo a10 = ci"
    using appDirectory_eq[OF ad2] f8 by (simp_all add: a10_def)
  have p2: "Join [dir2, ''assets.json''] = manifestPath en a ''assets.json''"
    using appDirectory_eq(5)[OF ad2] f8 by (simp add: manifestPath_def appDirectory_appName[of a8 a])
  have v1: "v1 = w1" using d1 by (simp add: w1_def clientURL_def)
  have "v2 = snd (snd (downloadFile en (baseURL a @ remoteAssetsJSON en) ''assets.json'' False (a6, v1)))"
    using d2 f6 by simp
  also have "\<dots> = snd (snd (downloadFile en (baseURL a @ remoteAssetsJSON en) ''assets.json'' False (a, v1)))"
    using f6(1) by (rule downloadFile_world)
  finally have v2: "v2 = w2" by (simp add: w2_def assetsURL_def v1)
  show "snd (refreshManifests en (a, w)) = w2" by (simp add: R v2)
  have "clientInfo a12 = ci" using f10 by (simp add: a12_def split: option.splits)
  then show "clientInfo (fst (refreshManifests en (a, w)))
           = snd (readJSON en (jsonClient en) (manifestPath en a ''client.json'') (clientInfo a) w1)"
    using rj1 by (simp add: R p1 f4 v1)
  have "assetsInfo a12 = ai" by (simp add: a12_def split: option.splits)
  then show "assetsInfo (fst (refreshManifests en (a, w)))
           = snd (readJSON en (jsonAssets en) (manifestPath en a ''assets.json'') (assetsInfo a) w2)"
    using rj2 by (simp add: R p2 f10 v2)
qed


lemma downloadFile_truncates:
  assumes "fst (os_MkdirAll en (Dir (manifestPath en a name)) w) = None"
      and "fst (os_Create en (manifestPath en a name) (snd (os_MkdirAll en (Dir (manifestPath en a name)) w))) = None"
      and "requestFails en w url"
  shows "files (snd (snd (downloadFile en url name p (a, w)))) (manifestPath en a name) = Some []"
proof -
  have cr: "files w2 q = Some []" if "os_Create en q w1 = (None, w2)" for q w1 w2
    using that by (auto simp: os_Create_def split: option.splits)
  show ?thesis
    using assms
    by (rule_tac downloadFile_outcome[where en=en and url=url and dname=name and p=p and a=a and w=w])
       (auto simp: manifestPath_def requestFails_def dest: cr)
qed

lemma readJSON_empty_file:
  assumes "files w q = Some []" "snd (dec [] d) = d"
  shows "snd (readJSON en dec q d w) = d"
  using assms by (simp add: readJSON_def os_ReadFile_def split: option.splits)

lemma readJSON_read_error:
  assumes "os_ReadFile en q w = Inl e"
  shows "snd (readJSON en dec q d w) = d"
  using assms by (simp add: readJSON_def)

theorem refreshManifests_keeps_counterexample:
  "fst (downloadFile envStale (clientURL envStale app0) ''client.json'' False (app0, worldStale))
     = Some (LibError ''permission denied'') \<and>
   ClientInfo_Revision (clientInfo app0) = 0 \<and>
   ClientInfo_Revision (clientInfo (fst (refreshManifests envStale (app0, worldStale)))) = 7"
proof -
  have 1: "fst (downloadFile envStale (clientURL envStale app0) ''client.json'' False (app0, worldStale))
     = Some (LibError ''permission denied'')" by code_simp
  have 2: "ClientInfo_Revision (clientInfo app0) = 0" by (simp add: app0_def)
  have 3: "ClientInfo_Revision (clientInfo (fst (refreshManifests envStale (app0, worldStale)))) = 7"
    by code_simp
  show ?thesis using 1 2 3 by simp
qed

lemma downloadFile_early_failure:
  assumes "fst (os_MkdirAll en (Dir (manifestPath en a name)) w) \<noteq> None \<or>
           fst (os_Create en (manifestPath en a name)
                  (snd (os_MkdirAll en (Dir (manifestPath en a name)) w))) \<noteq> None"
  shows "files (snd (snd (downloadFile en url name p (a, w)))) = files w"
proof -
  have mk: "files w1 = files w" if "os_MkdirAll en q w = (r, w1)" for q r w1
    using that by (auto simp: os_MkdirAll_def split: option.splits)
  have cr: "w2 = w1" if "os_Create en q w1 = (Some e, w2)" for q e w1 w2
    using that by (auto simp: os_Create_def split: option.splits)
  show ?thesis
    using assms
    by (rule_tac downloadFile_outcome[where en=en and url=url and dname=name and p=p and a=a and w=w])
       (auto simp: manifestPath_def dest: mk cr)
qed

text \<open>
  Claim C6, amended. \<open>refreshManifests\<close> never aborts early: whatever happens to one
  manifest, the other is still downloaded, read and loaded. The world it leaves is
  the one after the client download followed by the assets download, and each
  in-memory manifest is what \<open>readJSON\<close> leaves of it, from the file on disk after
  its download, whatever the outcome of that download. A manifest keeps its
  previous value when its file cannot be read, and when its download fails at the
  request or at the status check: the file was created empty before the request,
  and the parse of empty input leaves the destination as it was. When the download
  fails earlier, at the directory or at the creation of the file, every file is
  left as it was, and the old manifest file, if there is one and it can be read,
  is what is parsed into memory.
\<close>

theorem refreshManifests_partial_failure:
  "snd (refreshManifests en (a, w)) = afterAssets en (a, w) \<and>
   clientInfo (fst (refreshManifests en (a, w)))
     = snd (readJSON en (jsonClient en) (manifestPath en a ''client.json'') (clientInfo a)
              (afterClient en (a, w))) \<and>
   assetsInfo (fst (refreshManifests en (a, w)))
     = snd (readJSON en (jsonAssets en) (manifestPath en a ''assets.json'') (assetsInfo a)
              (afterAssets en (a, w))) \<and>
   (os_ReadFile en (manifestPath en a ''client.json'') (afterClient en (a, w)) = Inl e \<longrightarrow>
      clientInfo (fst (refreshManifests en (a, w))) = clientInfo a) \<and>
   (os_ReadFile en (manifestPath en a ''assets.json'') (afterAssets en (a, w)) = Inl e' \<longrightarrow>
      assetsInfo (fst (refreshManifests en (a, w))) = assetsInfo a) \<and>
   (fst (os_MkdirAll en (Dir (manifestPath en a ''client.json'')) w) = None \<longrightarrow>
    fst (os_Create en (manifestPath en a ''client.json'')
           (snd (os_MkdirAll en (Dir (manifestPath en a ''client.json'')) w))) = None \<longrightarrow>
    requestFails en w (clientURL en a) \<longrightarrow>
    snd (jsonClient en [] (clientInfo a)) = clientInfo a \<longrightarrow>
      clientInfo (fst (refreshManifests en (a, w))) = clientInfo a) \<and>
   (fst (os_MkdirAll en (Dir (manifestPath en a ''assets.json'')) (afterClient en (a, w))) = None \<longrightarrow>
    fst (os_Create en (manifestPath en a ''assets.json'')
           (snd (os_MkdirAll en (Dir (manifestPath en a ''assets.json'')) (afterClient en (a, w))))) = None \<longrightarrow>
    requestFails en (afterClient en (a, w)) (assetsURL en a) \<longrightarrow>
    snd (jsonAssets en [] (assetsInfo a)) = assetsInfo a \<longrightarrow>
      assetsInfo (fst (refreshManifests en (a, w))) = assetsInfo a) \<and>
   (fst (os_MkdirAll en (Dir (manifestPath en a ''client.json'')) w) \<noteq> None \<or>
    fst (os_Create en (manifestPath en a ''client.json'')
           (snd (os_MkdirAll en (Dir (manifestPath en a ''client.json'')) w))) \<noteq> None \<longrightarrow>
      files (afterClient en (a, w)) = files w \<and>
      (fault en (SysReadFile (manifestPath en a ''client.json'')) (afterClient en (a, w)) = None \<longrightarrow>
         clientInfo (fst (refreshManifests en (a, w)))
           = (case files w (manifestPath en a ''client.json'') of
                None \<Rightarrow> clientInfo a
              | Some b \<Rightarrow> snd (jsonClient en b (clientInfo a))))) \<and>
   (fst (os_MkdirAll en (Dir (manifestPath en a ''assets.json'')) (afterClient en (a, w))) \<noteq> None \<or>
    fst (os_Create en (manifestPath en a ''assets.json'')
           (snd (os_MkdirAll en (Dir (manifestPath en a ''assets.json'')) (afterClient en (a, w)))))
      \<noteq> None \<longrightarrow>
      files (afterAssets en (a, w)) = files (afterClient en (a, w)) \<and>
      (fault en (SysReadFile (manifestPath en a ''assets.json'')) (afterAssets en (a, w)) = None \<longrightarrow>
         assetsInfo (fst (refreshManifests en (a, w)))
           = (case files (afterClient en (a, w)) (manifestPath en a ''assets.json'') of
                None \<Rightarrow> assetsInfo a
              | Some b \<Rightarrow> snd (jsonAssets en b (assetsInfo a)))))"
proof -
  note r = refreshManifests_result[of en a w, folded afterClient_def afterAssets_def]
  have w1: "snd (snd (downloadFile en (clientURL en a) ''client.json'' False (a, w))) = afterClient en (a, w)"
    by (simp add: afterClient_def)
  have w2: "snd (snd (downloadFile en (assetsURL en a) ''assets.json'' False (a, afterClient en (a, w))))
      = afterAssets en (a, w)"
    by (simp add: afterAssets_def)
  note r' = refreshManifests_result[of en a w, unfolded w1 w2]
  show ?thesis
  proof (intro conjI impI)
    show "snd (refreshManifests en (a, w)) = afterAssets en (a, w)" by (rule r'(1))
    show "clientInfo (fst (refreshManifests en (a, w)))
       = snd (readJSON en (jsonClient en) (manifestPath en a ''client.json'') (clientInfo a)
              (afterClient en (a, w)))" by (rule r'(2))
    show "assetsInfo (fst (refreshManifests en (a, w)))
       = snd (readJSON en (jsonAssets en) (manifestPath en a ''assets.json'') (assetsInfo a)
              (afterAssets en (a, w)))" by (rule r'(3))
  next
    assume "os_ReadFile en (manifestPath en a ''client.json'') (afterClient en (a, w)) = Inl e"
    then show "clientInfo (fst (refreshManifests en (a, w))) = clientInfo a"
      by (simp add: r'(2) readJSON_read_error)
  next
    assume "os_ReadFile en (manifestPath en a ''assets.json'') (afterAssets en (a, w)) = Inl e'"
    then show "assetsInfo (fst (refreshManifests en (a, w))) = assetsInfo a"
      by (simp add: r'(3) readJSON_read_error)
  next
    assume h: "fst (os_MkdirAll en (Dir (manifestPath en a ''client.json'')) w) = None"
      "fst (os_Create en (manifestPath en a ''client.json'')
           (snd (os_MkdirAll en (Dir (manifestPath en a ''client.json'')) w))) = None"
      "requestFails en w (clientURL en a)"
      and j: "snd (jsonClient en [] (clientInfo a)) = clientInfo a"
    have "files (afterClient en (a, w)) (manifestPath en a ''client.json'') = Some []"
      using downloadFile_truncates[OF h, of False] by (simp add: afterClient_def)
    then show "clientInfo (fst (refreshManifests en (a, w))) = clientInfo a"
      using j by (simp add: r'(2) readJSON_empty_file)
  next
    assume h: "fst (os_MkdirAll en (Dir (manifestPath en a ''assets.json'')) (afterClient en (a, w))) = None"
      "fst (os_Create en (manifestPath en a ''assets.json'')
           (snd (os_MkdirAll en (Dir (manifestPath en a ''assets.json'')) (afterClient en (a, w))))) = None"
      "requestFails en (afterClient en (a, w)) (assetsURL en a)"
      and j: "snd (jsonAssets en [] (assetsInfo a)) = assetsInfo a"
    have "files (afterAssets en (a, w)) (manifestPath en a ''assets.json'') = Some []"
      using downloadFile_truncates[OF h, of False] by (simp add: afterAssets_def)
    then show "assetsInfo (fst (refreshManifests en (a, w))) = assetsInfo a"
      using j by (simp add: r'(3) readJSON_empty_file)
  next
    assume h: "fst (os_MkdirAll en (Dir (manifestPath en a ''client.json'')) w) \<noteq> None \<or>
      fst (os_Create en (manifestPath en a ''client.json'')
           (snd (os_MkdirAll en (Dir (manifestPath en a ''client.json'')) w))) \<noteq> None"
    show "files (afterClient en (a, w)) = files w"
      using downloadFile_early_failure[OF h, of "clientURL en a" False] by (simp add: afterClient_def)
  next
    assume h: "fst (os_MkdirAll en (Dir (manifestPath en a ''client.json'')) w) \<noteq> None \<or>
      fst (os_Create en (manifestPath en a ''client.json'')
           (snd (os_MkdirAll en (Dir (manifestPath en a ''client.json'')) w))) \<noteq> None"
      and f: "fault en (SysReadFile (manifestPath en a ''client.json'')) (afterClient en (a, w)) = None"
    have "files (afterClient en (a, w)) = files w"
      using downloadFile_early_failure[OF h, of "clientURL en a" False] by (simp add: afterClient_def)
    then show "clientInfo (fst (refreshManifests en (a, w)))
           = (case files w (manifestPath en a ''client.json'') of
                None \<Rightarrow> clientInfo a
              | Some b \<Rightarrow> snd (jsonClient en b (clientInfo a)))"
      using f by (simp add: r'(2) readJSON_def os_ReadFile_def split: option.splits)
  next
    assume h: "fst (os_MkdirAll en (Dir (manifestPath en a ''assets.json'')) (afterClient en (a, w))) \<noteq> None \<or>
      fst (os_Create en (manifestPath en a ''assets.json'')
           (snd (os_MkdirAll en (Dir (manifestPath en a ''assets.json'')) (afterClient en (a, w)))))
        \<noteq> None"
    show "files (afterAssets en (a, w)) = files (afterClient en (a, w))"
      using downloadFile_early_failure[OF h, of "assetsURL en a" False] by (simp add: afterAssets_def)
  next
    assume h: "fst (os_MkdirAll en (Dir (manifestPath en a ''assets.json'')) (afterClient en (a, w))) \<noteq> None \<or>
      fst (os_Create en (manifestPath en a ''assets.json'')
           (snd (os_MkdirAll en (Dir (manifestPath en a ''assets.json'')) (afterClient en (a, w)))))
        \<noteq> None"
      and f: "fault en (SysReadFile (manifestPath en a ''assets.json'')) (afterAssets en (a, w)) = None"
    have "files (afterAssets en (a, w)) = files (afterClient en (a, w))"
      using downloadFile_early_failure[OF h, of "assetsURL en a" False] by (simp add: afterAssets_def)
    then show "assetsInfo (fst (refreshManifests en (a, w)))
           = (case files (afterClient en (a, w)) (manifestPath en a ''assets.json'') of
                None \<Rightarrow> assetsInfo a
              | Some b \<Rightarrow> snd (jsonAssets en b (assetsInfo a)))"
      using f by (simp add: r'(3) readJSON_def os_ReadFile_def split: option.splits)
  qed
qed

theorem refreshManifests_partial_failure_witness:
  "requestFails envHalf world0 (clientURL envHalf app1) \<and>
   clientInfo (fst (refreshManifests envHalf (app1, world0))) = clientInfo app1 \<and>
   AssetsInfo_Version (assetsInfo app1) = 1 \<and>
   AssetsInfo_Version (assetsInfo (fst (refreshManifests envHalf (app1, world0)))) = 2 \<and>
   requests (snd (refreshManifests envHalf (app1, world0)))
     = [''https://example.org/cfg/client.linux.json'', ''https://example.org/cfg/assets.linux.json''] \<and>
   fst (os_Create envStale (manifestPath envStale app0 ''client.json'')
          (snd (os_MkdirAll envStale (Dir (manifestPath envStale app0 ''client.json'')) worldStale)))
     = Some (LibError ''permission denied'') \<and>
   files worldStale (manifestPath envStale app0 ''client.json'') = Some staleJSON \<and>
   ClientInfo_Revision (clientInfo (fst (refreshManifests envStale (app0, worldStale)))) = 7"
proof -
  have sc: "fst (os_Create envStale (manifestPath envStale app0 ''client.json'')
          (snd (os_MkdirAll envStale (Dir (manifestPath envStale app0 ''client.json'')) worldStale)))
     = Some (LibError ''permission denied'')" by code_simp
  then have sh: "fst (os_MkdirAll envStale (Dir (manifestPath envStale app0 ''client.json'')) worldStale) \<noteq> None \<or>
      fst (os_Create envStale (manifestPath envStale app0 ''client.json'')
           (snd (os_MkdirAll envStale (Dir (manifestPath envStale app0 ''client.json'')) worldStale))) \<noteq> None"
    by simp
  have sf: "fault envStale (SysReadFile (manifestPath envStale app0 ''client.json''))
              (afterClient envStale (app0, worldStale)) = None"
    by (simp add: envStale_def)
  have sp: "manifestPath envStale app0 ''client.json'' = ''/home/u/.config/launcher/client.json''"
    by code_simp
  have sd: "files worldStale (manifestPath envStale app0 ''client.json'') = Some staleJSON"
    unfolding sp by (simp add: worldStale_def)
  note st = refreshManifests_partial_failure[of envStale app0 worldStale, THEN conjunct2, THEN conjunct2,
            THEN conjunct2, THEN conjunct2, THEN conjunct2, THEN conjunct2, THEN conjunct2,
            THEN conjunct1, rule_format, OF sh, THEN conjunct2, rule_format, OF sf]
  have s7: "ClientInfo_Revision (clientInfo (fst (refreshManifests envStale (app0, worldStale)))) = 7"
    unfolding st sd by (simp add: envStale_def)
  have m: "fst (os_MkdirAll envHalf (Dir (manifestPath envHalf app1 ''client.json'')) world0) = None"
    by (simp add: os_MkdirAll_def envHalf_def env0_def)
  have c: "fst (os_Create envHalf (manifestPath envHalf app1 ''client.json'')
           (snd (os_MkdirAll envHalf (Dir (manifestPath envHalf app1 ''client.json'')) world0))) = None"
    by (simp add: os_Create_def envHalf_def env0_def)
  have f: "requestFails envHalf world0 (clientURL envHalf app1)" by code_simp
  have j: "snd (jsonClient envHalf [] (clientInfo app1)) = clientInfo app1"
    by (simp add: envHalf_def env0_def)
  have v1: "AssetsInfo_Version (assetsInfo app1) = 1" by (simp add: app1_def)
  have v2: "AssetsInfo_Version (assetsInfo (fst (refreshManifests envHalf (app1, world0)))) = 2"
    by code_simp
  have rq: "requests (snd (refreshManifests envHalf (app1, world0)))
     = [''https://example.org/cfg/client.linux.json'', ''https://example.org/cfg/assets.linux.json'']"
    by code_simp
  show ?thesis
    using refreshManifests_partial_failure[of envHalf app1 world0, THEN conjunct2, THEN conjunct2,
            THEN conjunct2, THEN conjunct2, THEN conjunct2, THEN conjunct1, rule_format, OF m c f j]
          f v1 v2 rq sc sd s7
    by simp
qed

subsection \<open>Transfers: the bytes counted at a failure\<close>

lemma io_Copy_reads_le: "io_Copy_reads en out cs w \<le> length cs"
proof (induction cs arbitrary: w)
  case Nil
  then show ?case by simp
next
  case (Cons c cs)
  show ?case
  proof (cases "os_Write en out c w")
    case (Pair r w')
    then show ?thesis using Cons.IH[of w'] by (cases r) simp_all
  qed
qed

text \<open>Whatever the callback of the reader is, it has run on exactly the chunks read.\<close>

lemma io_Copy_exact:
  "fst (snd (io_Copy en out g cs rerr (s, w)))
     = foldl (\<lambda>s c. g c s) s (take (io_Copy_reads en out cs w) cs)"
proof (induction cs arbitrary: s w)
  case Nil
  then show ?case by simp
next
  case (Cons c cs)
  show ?case
  proof (cases "os_Write en out c w")
    case (Pair r w')
    then show ?thesis using Cons.IH[of "g c s" w'] by (cases r) (simp_all add: Let_def)
  qed
qed

lemma io_Copy_records:
  "fst (snd (io_Copy en out (\<lambda>c l. l @ [c]) cs rerr ([], w))) = take (io_Copy_reads en out cs w) cs"
proof -
  have "foldl (\<lambda>l c. l @ [c]) l xs = l @ xs" for l xs :: "bytes list"
    by (induction xs arbitrary: l) simp_all
  then show ?thesis by (simp add: io_Copy_exact)
qed

lemma lzma_Copy_reads_le: "lzma_Copy_reads en out ss endN cs w \<le> length cs"
proof (induction ss arbitrary: cs w)
  case Nil
  then show ?case by simp
next
  case (Cons nc ss)
  obtain n c where nc: "nc = (n, c)" by (cases nc)
  show ?case
  proof (cases "os_Write en out c w")
    case (Pair r w')
    show ?thesis
    proof (cases r)
      case None
      define k where "k = lzma_Copy_reads en out ss endN (drop n cs) w'"
      have "k \<le> length (drop n cs)" unfolding k_def by (rule Cons.IH)
      then have "min n (length cs) + k \<le> length cs" by (auto simp: min_def)
      moreover have "lzma_Copy_reads en out (nc # ss) endN cs w = min n (length cs) + k"
        using Pair None by (simp add: nc k_def)
      ultimately show ?thesis by (simp only:)
    next
      case (Some e)
      then show ?thesis using Pair by (simp add: nc)
    qed
  qed
qed

lemma lzma_Copy_exact:
  "fst (snd (lzma_Copy en out p ss endN endE cs (a, w)))
     = foldl (\<lambda>a c. teeWrite p c a) a (take (lzma_Copy_reads en out ss endN cs w) cs)"
proof (induction ss arbitrary: cs a w)
  case Nil
  show ?case by (simp add: pullReads_eq take_min_length)
next
  case (Cons nc ss)
  obtain n c where nc: "nc = (n, c)" by (cases nc)
  show ?case
  proof (cases "os_Write en out c w")
    case (Pair r w')
    show ?thesis
    proof (cases r)
      case (Some e)
      then show ?thesis using Pair by (simp add: nc pullReads_eq take_min_length)
    next
      case None
      define k where "k = lzma_Copy_reads en out ss endN (drop n cs) w'"
      have "fst (snd (lzma_Copy en out p (nc # ss) endN endE cs (a, w)))
          = foldl (\<lambda>a c. teeWrite p c a) (foldl (\<lambda>a c. teeWrite p c a) a (take n cs)) (take k (drop n cs))"
        using Pair None Cons.IH[of "drop n cs" "foldl (\<lambda>a c. teeWrite p c a) a (take n cs)" w']
        by (simp add: nc pullReads_eq k_def)
      also have "\<dots> = foldl (\<lambda>a c. teeWrite p c a) a (take n cs @ take k (drop n cs))" by simp
      also have "take n cs @ take k (drop n cs) = take (n + k) cs" by (simp add: take_add)
      also have "take (n + k) cs = take (min n (length cs) + k) cs"
      proof (cases "n \<le> length cs")
        case True
        then show ?thesis by (simp add: min_def)
      next
        case False
        then have "k = 0" using lzma_Copy_reads_le[of en out ss endN "drop n cs" w'] by (simp add: k_def)
        with False show ?thesis by (simp add: min_def)
      qed
      finally show ?thesis using Pair None by (simp add: nc k_def)
    qed
  qed
qed


lemma foldl_tee_take_bytes:
  assumes "downloadedBytes b = downloadedBytes a"
  shows "downloadedBytes (foldl (\<lambda>a c. teeWrite p c a) b (take n cs))
      = downloadedBytes a + (if p then of_nat (length (concat (take n cs))) else 0)"
  by (simp add: foldl_teeWrite_bytes assms)

lemma downloadFile_streamed_bytes:
  "downloadedBytes (fst (snd (downloadFile en url dst p (a, w))))
     = downloadedBytes a
       + (if p then of_nat (length (concat (downloadFile_streamed en url dst (a, w)))) else 0) \<and>
   prefix (downloadFile_streamed en url dst (a, w)) (bodyChunks (httpGet en (length (requests w)) url))"
proof (rule downloadFile_outcome[where en=en and url=url and dname=dst and p=p and a=a and w=w], goal_cases)
  case (1 e w1)
  then have "downloadFile_streamed en url dst (a, w) = []"
    by (simp add: downloadFile_streamed_def Let_def)
  then show ?case using 1 by simp
next
  case (2 e w1 w2)
  then have "downloadFile_streamed en url dst (a, w) = []"
    by (simp add: downloadFile_streamed_def Let_def)
  then show ?case using 2 by simp
next
  case (3 e w1 w2)
  have rq: "requests w2 = requests w" using 3 by (simp add: os_MkdirAll_req os_Create_req)
  have "downloadFile_streamed en url dst (a, w) = []"
    using 3 by (simp add: downloadFile_streamed_def Let_def http_Get_def rq)
  then show ?case using 3 by simp
next
  case (4 resp w1 w2)
  have rq: "requests w2 = requests w" using 4 by (simp add: os_MkdirAll_req os_Create_req)
  have "downloadFile_streamed en url dst (a, w) = []"
    using 4 by (simp add: downloadFile_streamed_def Let_def http_Get_def rq)
  then show ?case using 4 by simp
next
  case (5 resp w1 w2 e)
  have rq: "requests w2 = requests w" using 5 by (simp add: os_MkdirAll_req os_Create_req)
  have S: "downloadFile_streamed en url dst (a, w)
      = take (hdrReads (lzmaRead en (Body resp))) (chunks (Body resp))"
    using 5 by (simp add: downloadFile_streamed_def Let_def http_Get_def rq)
  have cs: "bodyChunks (httpGet en (length (requests w)) url) = chunks (Body resp)"
    using 5 by (simp add: bodyChunks_def)
  have st: "fst (snd (downloadFile en url dst p (a, w)))
    = foldl (\<lambda>a c. teeWrite p c a)
        (snd (appDirectory en (Log (Infof ''Downloading %s to %s'' [S url, S dst]) a)))
        (take (hdrReads (lzmaRead en (Body resp))) (chunks (Body resp)))"
    using 5 by simp
  show ?case unfolding S cs st
    by (intro conjI foldl_tee_take_bytes take_is_prefix) simp
next
  case (6 resp w1 w2 r)
  have rq: "requests w2 = requests w" using 6 by (simp add: os_MkdirAll_req os_Create_req)
  define n where "n = hdrReads (lzmaRead en (Body resp))"
  define k where "k = lzma_Copy_reads en (Join [fst (appDirectory en a), dst])
      (steps (lzmaRead en (Body resp))) (endReads (lzmaRead en (Body resp)))
      (drop n (chunks (Body resp))) (w2\<lparr>requests := requests w @ [url]\<rparr>)"
  have S: "downloadFile_streamed en url dst (a, w) = take (n + k) (chunks (Body resp))"
    using 6 by (simp add: downloadFile_streamed_def Let_def http_Get_def rq n_def k_def)
  have cs: "bodyChunks (httpGet en (length (requests w)) url) = chunks (Body resp)"
    using 6 by (simp add: bodyChunks_def)
  define a2 where "a2 = snd (appDirectory en (Log (Infof ''Downloading %s to %s'' [S url, S dst]) a))"
  have "fst (snd r) = foldl (\<lambda>a c. teeWrite p c a)
          (foldl (\<lambda>a c. teeWrite p c a) a2 (take n (chunks (Body resp))))
          (take k (drop n (chunks (Body resp))))"
    unfolding 6(8) by (simp add: lzma_Copy_exact n_def k_def a2_def)
  also have "\<dots> = foldl (\<lambda>a c. teeWrite p c a) a2
                     (take n (chunks (Body resp)) @ take k (drop n (chunks (Body resp))))"
    by simp
  also have "take n (chunks (Body resp)) @ take k (drop n (chunks (Body resp)))
      = take (n + k) (chunks (Body resp))" by (simp add: take_add)
  finally have r: "fst (snd r) = foldl (\<lambda>a c. teeWrite p c a) a2 (take (n + k) (chunks (Body resp)))" .
  have st: "downloadedBytes (fst (snd (downloadFile en url dst p (a, w))))
    = downloadedBytes (fst (snd r))"
    using 6 by simp
  show ?case unfolding S cs st r
    by (intro conjI foldl_tee_take_bytes take_is_prefix) (simp add: a2_def)
next
  case (7 resp w1 w2 r)
  have rq: "requests w2 = requests w" using 7 by (simp add: os_MkdirAll_req os_Create_req)
  define k where "k = io_Copy_reads en (Join [fst (appDirectory en a), dst]) (chunks (Body resp))
      (w2\<lparr>requests := requests w @ [url]\<rparr>)"
  have c: "(Ext (Join [fst (appDirectory en a), dst]) \<noteq> ''.lzma'' \<and> Ext url = ''.lzma'') = False"
    using 7 by simp
  have S: "downloadFile_streamed en url dst (a, w) = take k (chunks (Body resp))"
    using 7(1-4) by (simp add: c downloadFile_streamed_def Let_def http_Get_def rq k_def)
  have cs: "bodyChunks (httpGet en (length (requests w)) url) = chunks (Body resp)"
    using 7 by (simp add: bodyChunks_def)
  define a2 where "a2 = snd (appDirectory en (Log (Infof ''Downloading %s to %s'' [S url, S dst]) a))"
  have r: "fst (snd r) = foldl (\<lambda>a c. teeWrite p c a) a2 (take k (chunks (Body resp)))"
    unfolding 7(6) by (simp add: io_Copy_exact k_def a2_def)
  have st: "downloadedBytes (fst (snd (downloadFile en url dst p (a, w))))
    = downloadedBytes (fst (snd r))"
    using 7 by simp
  show ?case unfolding S cs st r
    by (intro conjI foldl_tee_take_bytes take_is_prefix) (simp add: a2_def)
qed

lemma downloadZip_streamed_bytes:
  "downloadedBytes (fst (snd (downloadZip en url tf p (a, w))))
     = downloadedBytes a
       + (if p then of_nat (length (concat (downloadZip_streamed en url tf (a, w)))) else 0) \<and>
   prefix (downloadZip_streamed en url tf (a, w)) (bodyChunks (httpGet en (length (requests w)) url))"
proof -
  have copied: ?thesis
    if h: "os_MkdirAll en (Join [fst (appDirectory en a), tf]) w = (None, w1)"
      "os_Create en (Join [TempDir en, ''nordemon_download.zip'']) w1 = (None, w2)"
      "httpGet en (length (requests w)) url = Inr resp" "StatusCode resp = 200"
      "io_Copy en (Join [TempDir en, ''nordemon_download.zip'']) (teeWrite p) (chunks (Body resp))
         (readErr (Body resp))
         (snd (appDirectory en a)\<lparr>totalBytes := ContentLength resp\<rparr>, w2\<lparr>requests := requests w @ [url]\<rparr>)
         = (x, a3, w4)"
      and R: "downloadedBytes (fst (snd (downloadZip en url tf p (a, w)))) = downloadedBytes a3"
    for w1 w2 resp x a3 w4
  proof -
    have rq: "requests w2 = requests w" using h by (simp add: os_MkdirAll_req os_Create_req)
    define k where "k = io_Copy_reads en (Join [TempDir en, ''nordemon_download.zip'']) (chunks (Body resp))
      (w2\<lparr>requests := requests w @ [url]\<rparr>)"
    have S: "downloadZip_streamed en url tf (a, w) = take k (chunks (Body resp))"
      using h(1-4) by (simp add: downloadZip_streamed_def http_Get_def rq k_def)
    have cs: "bodyChunks (httpGet en (length (requests w)) url) = chunks (Body resp)"
      using h by (simp add: bodyChunks_def)
    have "a3 = fst (snd (io_Copy en (Join [TempDir en, ''nordemon_download.zip'']) (teeWrite p)
         (chunks (Body resp)) (readErr (Body resp))
         (snd (appDirectory en a)\<lparr>totalBytes := ContentLength resp\<rparr>, w2\<lparr>requests := requests w @ [url]\<rparr>)))"
      using h(5) by simp
    then have a3: "a3 = foldl (\<lambda>a c. teeWrite p c a)
         (snd (appDirectory en a)\<lparr>totalBytes := ContentLength resp\<rparr>) (take k (chunks (Body resp)))"
      by (simp add: io_Copy_exact k_def)
    show ?thesis unfolding S cs R a3
      by (intro conjI foldl_tee_take_bytes take_is_prefix) simp
  qed
  show ?thesis
  proof (rule downloadZip_outcome[where en=en and url=url and tf=tf and p=p and a=a and w=w], goal_cases)
    case (1 e w1)
    then have "downloadZip_streamed en url tf (a, w) = []"
      by (simp add: downloadZip_streamed_def)
    then show ?case using 1 by simp
  next
    case (2 e w1 w2)
    then have "downloadZip_streamed en url tf (a, w) = []"
      by (simp add: downloadZip_streamed_def)
    then show ?case using 2 by simp
  next
    case (3 e w1 w2)
    have rq: "requests w2 = requests w" using 3 by (simp add: os_MkdirAll_req os_Create_req)
    have "downloadZip_streamed en url tf (a, w) = []"
      using 3 by (simp add: downloadZip_streamed_def http_Get_def rq)
    then show ?case using 3 by simp
  next
    case (4 resp w1 w2)
    have rq: "requests w2 = requests w" using 4 by (simp add: os_MkdirAll_req os_Create_req)
    have "downloadZip_streamed en url tf (a, w) = []"
      using 4 by (simp add: downloadZip_streamed_def http_Get_def rq)
    then show ?case using 4 by simp
  next
    case (5 resp w1 w2 e a3 w4)
    show ?case by (rule copied[OF 5(1-5)]) (simp add: 5)
  next
    case (6 resp w1 w2 e a3 w4 w5)
    show ?case by (rule copied[OF 6(1-5)]) (simp add: 6)
  next
    case (7 resp w1 w2 a3 w4 w5)
    show ?case by (rule copied[OF 7(1-5)]) (simp add: 7)
  qed
qed


text \<open>
  Claim C9. When a transfer returns an error, at whatever stage, the done-files
  counter is what it was before the transfer. The done-bytes counter is its value
  before the transfer plus the sizes of exactly the chunks of the response body
  that the transfer had read when it returned (\<open>downloadFile_streamed\<close>,
  \<open>downloadZip_streamed\<close>: a prefix of the body, each chunk passed to \<open>App.Write\<close> as
  it was read; nothing is added when the transfer reports no progress). So the
  bytes counted before a failure stay counted. \<open>io_Copy_reads\<close> is the number of
  chunks on which the callback of the reader of \<open>io.Copy\<close> runs, whatever the
  callback: a recording callback records exactly that many.
\<close>

theorem failed_transfer_counters:
  "(fst (downloadFile en url dst p (a, w)) \<noteq> None \<longrightarrow>
      downloadedFiles (fst (snd (downloadFile en url dst p (a, w)))) = downloadedFiles a) \<and>
   downloadedBytes (fst (snd (downloadFile en url dst p (a, w))))
     = downloadedBytes a
       + (if p then of_nat (length (concat (downloadFile_streamed en url dst (a, w)))) else 0) \<and>
   prefix (downloadFile_streamed en url dst (a, w)) (bodyChunks (httpGet en (length (requests w)) url)) \<and>
   (fst (downloadZip en url tf p (a, w)) \<noteq> None \<longrightarrow>
      downloadedFiles (fst (snd (downloadZip en url tf p (a, w)))) = downloadedFiles a) \<and>
   downloadedBytes (fst (snd (downloadZip en url tf p (a, w))))
     = downloadedBytes a
       + (if p then of_nat (length (concat (downloadZip_streamed en url tf (a, w)))) else 0) \<and>
   prefix (downloadZip_streamed en url tf (a, w)) (bodyChunks (httpGet en (length (requests w)) url)) \<and>
   fst (snd (io_Copy en out (\<lambda>c l. l @ [c]) cs rerr ([], w')))
     = take (io_Copy_reads en out cs w') cs"
  using downloadFile_streamed_bytes[of en url dst p a w] downloadZip_streamed_bytes[of en url tf p a w]
    io_Copy_records[of en out cs rerr w']
  by (simp add: downloadFile_downloadedFiles downloadZip_downloadedFiles)

theorem failed_transfer_counters_witness:
  "fst (downloadFile envCut ''https://example.org/cfg/data.bin'' ''data.bin'' True (app0, world0))
     = Some (LibError ''unexpected EOF'') \<and>
   downloadFile_streamed envCut ''https://example.org/cfg/data.bin'' ''data.bin'' (app0, world0)
     = [''abc'', ''defg''] \<and>
   downloadedFiles (fst (snd (downloadFile envCut ''https://example.org/cfg/data.bin'' ''data.bin'' True
       (app0, world0)))) = 0 \<and>
   downloadedBytes (fst (snd (downloadFile envCut ''https://example.org/cfg/data.bin'' ''data.bin'' True
       (app0, world0)))) = 7 \<and>
   fst (downloadZip envDiskFull ''https://example.org/cfg/data.bin'' ''client'' True (app0, world0))
     = Some (LibError ''no space left on device'') \<and>
   downloadZip_streamed envDiskFull ''https://example.org/cfg/data.bin'' ''client'' (app0, world0)
     = [''abc'', ''defg''] \<and>
   downloadedFiles (fst (snd (downloadZip envDiskFull ''https://example.org/cfg/data.bin'' ''client'' True
       (app0, world0)))) = 0 \<and>
   downloadedBytes (fst (snd (downloadZip envDiskFull ''https://example.org/cfg/data.bin'' ''client'' True
       (app0, world0)))) = 7"
proof -
  have e1: "fst (downloadFile envCut ''https://example.org/cfg/data.bin'' ''data.bin'' True (app0, world0))
     = Some (LibError ''unexpected EOF'')" by code_simp
  have s1: "downloadFile_streamed envCut ''https://example.org/cfg/data.bin'' ''data.bin'' (app0, world0)
     = [''abc'', ''defg'']" by code_simp
  have e2: "fst (downloadZip envDiskFull ''https://example.org/cfg/data.bin'' ''client'' True (app0, world0))
     = Some (LibError ''no space left on device'')" by code_simp
  have s2: "downloadZip_streamed envDiskFull ''https://example.org/cfg/data.bin'' ''client'' (app0, world0)
     = [''abc'', ''defg'']" by code_simp
  have z: "downloadedFiles app0 = 0" "downloadedBytes app0 = 0" by (simp_all add: app0_def)
  note t1 = failed_transfer_counters[of envCut "''https://example.org/cfg/data.bin''" "''data.bin''" True
            app0 world0 "''client''" "[]" "[]" None world0]
  note t2 = failed_transfer_counters[of envDiskFull "''https://example.org/cfg/data.bin''" "''data.bin''" True
            app0 world0 "''client''" "[]" "[]" None world0]
  show ?thesis using t1 t2 e1 s1 e2 s2 z by simp
qed

subsection \<open>Paths: splitting, cleaning and joining\<close>

lemma Split_not_Nil [simp]: "Split s c \<noteq> []"
  by (induction s) (auto split: list.splits)


















subsection \<open>Archive extraction: where the files go\<close>

lemma os_MkdirAll_files: "files (snd (os_MkdirAll en q w)) = files w"
  by (simp add: os_MkdirAll_def split: option.splits)

lemma os_Create_files: "q \<noteq> p \<Longrightarrow> files (snd (os_Create en q w)) p = files w p"
  by (simp add: os_Create_def split: option.splits)

lemma os_Write_files: "q \<noteq> p \<Longrightarrow> files (snd (os_Write en q c w)) p = files w p"
  by (simp add: os_Write_def split: option.splits)

lemma io_Copy_files:
  "q \<noteq> p \<Longrightarrow> files (snd (snd (io_Copy en q g cs rerr (s, w)))) p = files w p"
proof (induction cs arbitrary: s w)
  case Nil
  then show ?case by simp
next
  case (Cons c cs)
  obtain e1 w1 where o: "os_Write en q c w = (e1, w1)" by force
  have f: "files w1 p = files w p" using os_Write_files[OF Cons.prems, of en c w] o by simp
  show ?case using o f Cons.IH[OF Cons.prems, of "g c s" w1] by (cases e1) simp_all
qed

text \<open>A file that no file entry of the archive targets is left as it was.\<close>

lemma extractFiles_keeps:
  assumes "\<forall>f\<in>set fs. IsDir f \<or> extractTarget dst rf f \<noteq> Some p"
  shows "files (snd (extractFiles en dst rf fs w)) p = files w p"
  using assms
proof (induction fs arbitrary: w)
  case Nil
  then show ?case by simp
next
  case (Cons f r)
  have ih: "files (snd (extractFiles en dst rf r w')) p = files w' p" for w'
    using Cons by simp
  show ?case
  proof (cases "extractTarget dst rf f")
    case None
    then show ?thesis using ih by simp
  next
    case (Some t)
    show ?thesis
    proof (cases "IsDir f")
      case True
      obtain e1 w1 where m: "os_MkdirAll en t w = (e1, w1)" by force
      have "files w1 = files w" using os_MkdirAll_files[of en t w] m by simp
      then show ?thesis using Some True m ih[of w1] by (cases e1) simp_all
    next
      case False
      then have tp: "t \<noteq> p" using Cons.prems Some by auto
      obtain e1 w1 where m: "os_MkdirAll en (Dir t) w = (e1, w1)" by force
      have f1: "files w1 = files w" using os_MkdirAll_files[of en "Dir t" w] m by simp
      obtain e2 w2 where c: "os_Create en t w1 = (e2, w2)" by force
      have f2: "files w2 p = files w1 p" using os_Create_files[OF tp, of en w1] c by simp
      show ?thesis
      proof (cases "Open f")
        case (Inl e)
        then show ?thesis using Some False m f1 by (cases e1) simp_all
      next
        case (Inr rc)
        obtain e3 u w3 where i: "io_Copy en t (\<lambda>c u. u) (chunks rc) (readErr rc) ((), w2) = (e3, u, w3)"
          by (metis prod_cases3)
        have f3: "files w3 p = files w2 p"
          using io_Copy_files[OF tp, of en "\<lambda>c u. u" "chunks rc" "readErr rc" "()" w2] i by simp
        show ?thesis using Some False m c i f1 f2 f3 ih[of w3] Inr
          by (cases e1; cases e2; cases e3) simp_all
      qed
    qed
  qed
qed

lemma unzipToFolder_archive:
  "unzipToFolder en src dst w = (e, w') \<Longrightarrow> w' \<noteq> w \<Longrightarrow>
     unzipToFolder en src dst w
       = extractFiles en dst (rootFolderScan [] (archive en src w)) (archive en src w) w"
  by (auto simp: unzipToFolder_def archive_def split: sum.splits)


subsection \<open>Archive extraction: the root folder\<close>

lemma firstSegment_takeWhile: "firstSegment s = takeWhile (\<lambda>x. x \<noteq> CHR ''/'') s"
proof (induction s)
  case Nil
  show ?case by (simp add: firstSegment_def)
next
  case (Cons x xs)
  obtain q qs where q: "Split xs CHR ''/'' = q # qs"
    using Split_not_Nil[of xs "CHR ''/''"] by (cases "Split xs CHR ''/''") auto
  show ?case using Cons q by (simp add: firstSegment_def)
qed

lemma firstSegment_cases:
  assumes "firstSegment s = r"
  shows "s = r \<or> prefix (r @ ''/'') s"
proof -
  have s: "s = r @ dropWhile (\<lambda>x. x \<noteq> CHR ''/'') s"
    using assms takeWhile_dropWhile_id[of "\<lambda>x. x \<noteq> CHR ''/''" s]
    by (simp add: firstSegment_takeWhile)
  show ?thesis
  proof (cases "dropWhile (\<lambda>x. x \<noteq> CHR ''/'') s")
    case Nil
    have "s = r" using s unfolding Nil by simp
    then show ?thesis by simp
  next
    case (Cons y ys)
    then have "y = CHR ''/''" using hd_dropWhile[of "\<lambda>x. x \<noteq> CHR ''/''" s] by auto
    then have "s = (r @ ''/'') @ ys" using s Cons by simp
    then show ?thesis using prefixI by blast
  qed
qed

lemma firstSegment_no_slash: "CHR ''/'' \<notin> set (firstSegment s)"
  unfolding firstSegment_takeWhile by (induction s) auto

lemma rootFolderScan_step:
  "rootFolderScan rf (f # r) =
     (if rf = [] then rootFolderScan (firstSegment (Name f)) r
      else if rf \<noteq> firstSegment (Name f) then []
      else rootFolderScan rf r)"
  by (simp add: firstSegment_def Let_def)

lemma rootFolderScan_same:
  "r \<noteq> [] \<Longrightarrow> \<forall>f\<in>set fs. firstSegment (Name f) = r \<Longrightarrow> rootFolderScan r fs = r"
  by (induction fs) (simp_all add: rootFolderScan_step del: rootFolderScan.simps(2))

lemma rootFolderScan_shared:
  assumes "r \<noteq> []" and "fs \<noteq> []" and "\<forall>f\<in>set fs. firstSegment (Name f) = r"
  shows "rootFolderScan [] fs = r"
proof -
  obtain f fs' where fs: "fs = f # fs'" using assms(2) by (cases fs) auto
  have "rootFolderScan [] fs = rootFolderScan r fs'"
    unfolding fs rootFolderScan_step using assms(3) fs by simp
  then show ?thesis using rootFolderScan_same[OF assms(1), of fs'] assms(3) fs by simp
qed

lemma rootFolderScan_differs:
  "r \<noteq> [] \<Longrightarrow> \<exists>g\<in>set fs. firstSegment (Name g) \<noteq> r \<Longrightarrow> rootFolderScan r fs = []"
  by (induction fs) (auto simp add: rootFolderScan_step simp del: rootFolderScan.simps(2))

lemma rootFolderScan_distinct:
  assumes "\<forall>f\<in>set fs. firstSegment (Name f) \<noteq> []"
    and "f \<in> set fs" and "g \<in> set fs" and "firstSegment (Name f) \<noteq> firstSegment (Name g)"
  shows "rootFolderScan [] fs = []"
proof -
  obtain h fs' where fs: "fs = h # fs'" using assms(2) by (cases fs) auto
  have h: "firstSegment (Name h) \<noteq> []" using assms(1) fs by simp
  obtain k where k: "k \<in> set fs" "firstSegment (Name k) \<noteq> firstSegment (Name h)"
    using assms(2,3,4) by metis
  then have "k \<in> set fs'" using fs by auto
  then have "\<exists>k\<in>set fs'. firstSegment (Name k) \<noteq> firstSegment (Name h)"
    using k(2) by auto
  then have "rootFolderScan (firstSegment (Name h)) fs' = []"
    by (rule rootFolderScan_differs[OF h])
  then show ?thesis unfolding fs rootFolderScan_step by simp
qed

lemma extractTarget_flat:
  assumes "r \<noteq> []" and "firstSegment (Name f) = r"
  shows "(prefix (r @ ''/'') (Name f) \<or> Name f = r) \<and>
         extractTarget dst r f =
           (if Name f = r @ ''/'' then None
            else if prefix (r @ ''/'') (Name f) then Some (Join [dst, drop (length r + 1) (Name f)])
            else Some (Join [dst, Name f]))"
proof -
  have c: "Name f = r \<or> prefix (r @ ''/'') (Name f)" by (rule firstSegment_cases[OF assms(2)])
  show ?thesis
  proof (cases "prefix (r @ ''/'') (Name f)")
    case True
    then obtain rest where n: "Name f = r @ CHR ''/'' # rest" by (auto simp: prefix_def)
    show ?thesis using True assms(1) by (auto simp: extractTarget_def TrimPrefix_def n)
  next
    case False
    then have "Name f = r" using c by simp
    then show ?thesis using False assms(1) by (auto simp: extractTarget_def TrimPrefix_def)
  qed
qed

subsection \<open>Archive extraction: what a run without error leaves\<close>

lemma os_MkdirAll_dirs: "dirs w \<subseteq> dirs (snd (os_MkdirAll en q w))"
  by (auto simp: os_MkdirAll_def split: option.splits)

lemma os_MkdirAll_made: "os_MkdirAll en q w = (None, w1) \<Longrightarrow> set (ancestors q) \<subseteq> dirs w1"
  by (auto simp: os_MkdirAll_def split: option.splits)

lemma os_Create_dirs: "dirs (snd (os_Create en q w)) = dirs w"
  by (auto simp: os_Create_def split: option.splits)

lemma os_Create_dom: "files w p \<noteq> None \<Longrightarrow> files (snd (os_Create en q w)) p \<noteq> None"
  by (auto simp: os_Create_def split: option.splits)

lemma os_Create_made: "os_Create en q w = (None, w1) \<Longrightarrow> files w1 q \<noteq> None"
  by (auto simp: os_Create_def split: option.splits)

lemma os_Write_dirs: "dirs (snd (os_Write en q c w)) = dirs w"
  by (auto simp: os_Write_def split: option.splits)

lemma os_Write_dom: "files w p \<noteq> None \<Longrightarrow> files (snd (os_Write en q c w)) p \<noteq> None"
  by (auto simp: os_Write_def split: option.splits)

lemma io_Copy_grows:
  "dirs (snd (snd (io_Copy en q g cs rerr (s, w)))) = dirs w \<and>
   (files w p \<noteq> None \<longrightarrow> files (snd (snd (io_Copy en q g cs rerr (s, w)))) p \<noteq> None)"
proof (induction cs arbitrary: s w)
  case Nil
  then show ?case by simp
next
  case (Cons c cs)
  obtain e1 w1 where o: "os_Write en q c w = (e1, w1)" by force
  have d: "dirs w1 = dirs w" using os_Write_dirs[of en q c w] o by simp
  have f: "files w p \<noteq> None \<longrightarrow> files w1 p \<noteq> None" using os_Write_dom[of w p en q c] o by simp
  show ?case using o d f Cons.IH[of "g c s" w1] by (cases e1) simp_all
qed

text \<open>One entry of the second loop: the world after it, when it does not fail.\<close>

lemma extractFiles_Cons:
  assumes "extractFiles en dst rf (f # r) w = (None, w')"
  shows "\<exists>w1. extractFiles en dst rf r w1 = (None, w') \<and>
           dirs w \<subseteq> dirs w1 \<and> (\<forall>p. files w p \<noteq> None \<longrightarrow> files w1 p \<noteq> None) \<and>
           (\<forall>t. extractTarget dst rf f = Some t \<longrightarrow>
              (if IsDir f then set (ancestors t) \<subseteq> dirs w1 else files w1 t \<noteq> None))"
proof (cases "extractTarget dst rf f")
  case None
  then show ?thesis using assms by (intro exI[of _ w]) simp
next
  case (Some t)
  show ?thesis
  proof (cases "IsDir f")
    case True
    obtain e1 w1 where m: "os_MkdirAll en t w = (e1, w1)" by force
    have e1: "e1 = None" using assms Some True m by (cases e1) simp_all
    have 1: "extractFiles en dst rf r w1 = (None, w')" using assms Some True m e1 by simp
    have 2: "dirs w \<subseteq> dirs w1" using os_MkdirAll_dirs[of w en t] m by simp
    have 3: "files w1 = files w" using os_MkdirAll_files[of en t w] m by simp
    have 4: "set (ancestors t) \<subseteq> dirs w1" using os_MkdirAll_made[of en t w w1] m e1 by simp
    show ?thesis using 1 2 3 4 Some True by (intro exI[of _ w1]) simp
  next
    case False
    obtain e1 w1 where m: "os_MkdirAll en (Dir t) w = (e1, w1)" by force
    have e1: "e1 = None" using assms Some False m by (cases e1) simp_all
    obtain rc where rc: "Open f = Inr rc" using assms Some False m e1 by (cases "Open f") simp_all
    obtain e2 w2 where c: "os_Create en t w1 = (e2, w2)" by force
    have e2: "e2 = None" using assms Some False m e1 rc c by (cases e2) simp_all
    obtain e3 u w3 where i: "io_Copy en t (\<lambda>c u. u) (chunks rc) (readErr rc) ((), w2) = (e3, u, w3)"
      by (metis prod_cases3)
    have e3: "e3 = None" using assms Some False m e1 rc c e2 i by (cases e3) simp_all
    have 1: "extractFiles en dst rf r w3 = (None, w')" using assms Some False m e1 rc c e2 i e3 by simp
    have d1: "dirs w \<subseteq> dirs w1" using os_MkdirAll_dirs[of w en "Dir t"] m by simp
    have d2: "dirs w2 = dirs w1" using os_Create_dirs[of en t w1] c by simp
    have g: "dirs w3 = dirs w2 \<and> (files w2 p \<noteq> None \<longrightarrow> files w3 p \<noteq> None)" for p
      using io_Copy_grows[of en t "\<lambda>c u. u" "chunks rc" "readErr rc" "()" w2 p] i by simp
    have f1: "files w1 = files w" using os_MkdirAll_files[of en "Dir t" w] m by simp
    have f2: "files w1 p \<noteq> None \<Longrightarrow> files w2 p \<noteq> None" for p
      using os_Create_dom[of w1 p en t] c by simp
    have f3: "files w2 t \<noteq> None" using os_Create_made[of en t w1 w2] c e2 by simp
    have 2: "dirs w \<subseteq> dirs w3" using d1 d2 g by simp
    have 3: "files w p \<noteq> None \<Longrightarrow> files w3 p \<noteq> None" for p using f1 f2[of p] g[of p] by simp
    have 4: "files w3 t \<noteq> None" using f3 g[of t] by simp
    show ?thesis using 1 2 3 4 Some False by (intro exI[of _ w3]) simp
  qed
qed

lemma extractFiles_grows:
  "extractFiles en dst rf fs w = (None, w') \<Longrightarrow>
     dirs w \<subseteq> dirs w' \<and> (\<forall>p. files w p \<noteq> None \<longrightarrow> files w' p \<noteq> None)"
proof (induction fs arbitrary: w)
  case Nil
  then show ?case by simp
next
  case (Cons f r)
  obtain w1 where 1: "extractFiles en dst rf r w1 = (None, w')"
    and 2: "dirs w \<subseteq> dirs w1" and 3: "\<forall>p. files w p \<noteq> None \<longrightarrow> files w1 p \<noteq> None"
    using extractFiles_Cons[OF Cons.prems] by blast
  show ?case using Cons.IH[OF 1] 2 3 by blast
qed

lemma extractFiles_done:
  "extractFiles en dst rf fs w = (None, w') \<Longrightarrow> f \<in> set fs \<Longrightarrow> extractTarget dst rf f = Some t \<Longrightarrow>
     (if IsDir f then set (ancestors t) \<subseteq> dirs w' else files w' t \<noteq> None)"
proof (induction fs arbitrary: w)
  case Nil
  then show ?case by simp
next
  case (Cons g r)
  obtain w1 where 1: "extractFiles en dst rf r w1 = (None, w')"
    and 4: "\<forall>t. extractTarget dst rf g = Some t \<longrightarrow>
           (if IsDir g then set (ancestors t) \<subseteq> dirs w1 else files w1 t \<noteq> None)"
    using extractFiles_Cons[OF Cons.prems(1)] by blast
  show ?case
  proof (cases "f = g")
    case True
    have "if IsDir f then set (ancestors t) \<subseteq> dirs w1 else files w1 t \<noteq> None"
      using 4 True Cons.prems(3) by simp
    then show ?thesis using extractFiles_grows[OF 1] by (auto split: if_splits)
  next
    case False
    then have "f \<in> set r" using Cons.prems(2) by simp
    then show ?thesis using Cons.IH[OF 1 _ Cons.prems(3)] by simp
  qed
qed

lemma unzipToFolder_done:
  assumes "fst (unzipToFolder en src dst w) = None" and "f \<in> set (archive en src w)"
    and "entryPath en src dst w f = Some t"
  shows "if IsDir f then set (ancestors t) \<subseteq> dirs (snd (unzipToFolder en src dst w))
         else files (snd (unzipToFolder en src dst w)) t \<noteq> None"
proof -
  let ?fs = "archive en src w"
  have u: "unzipToFolder en src dst w = extractFiles en dst (rootFolderScan [] ?fs) ?fs w"
    using assms(2) by (auto simp: unzipToFolder_def archive_def split: sum.splits)
  obtain w' where e: "extractFiles en dst (rootFolderScan [] ?fs) ?fs w = (None, w')"
    using assms(1) u by (cases "extractFiles en dst (rootFolderScan [] ?fs) ?fs w") auto
  show ?thesis
    using extractFiles_done[OF e assms(2), of t] assms(3) u e by (simp add: entryPath_def)
qed

text \<open>
  Claim C2, amended. When every entry of the archive has the same first path
  segment \<open>r\<close>, and \<open>r\<close> is not empty, every name is \<open>r\<close> itself or begins with
  \<open>r/\<close>: the entry named \<open>r/\<close> is skipped, a name that begins with \<open>r/\<close> is put at
  the destination joined with what follows \<open>r/\<close>, and the name \<open>r\<close> is put at the
  destination joined with \<open>r\<close>. When the first segments are not all the same, and
  none is empty, nothing is stripped: every entry is put at the destination joined
  with its name. A run that returns no error leaves a file at the path of every
  file entry and the directories of the path of every directory entry; and no run
  creates or changes a file elsewhere than at the path of a file entry.
\<close>

theorem unzipToFolder_flattening:
  "(r \<noteq> [] \<and> archive en src w \<noteq> [] \<and> (\<forall>f\<in>set (archive en src w). firstSegment (Name f) = r) \<longrightarrow>
      (\<forall>f\<in>set (archive en src w).
         (prefix (r @ ''/'') (Name f) \<or> Name f = r) \<and>
         entryPath en src dst w f =
           (if Name f = r @ ''/'' then None
            else if prefix (r @ ''/'') (Name f) then Some (Join [dst, drop (length r + 1) (Name f)])
            else Some (Join [dst, Name f])))) \<and>
   ((\<forall>f\<in>set (archive en src w). firstSegment (Name f) \<noteq> []) \<and>
    (\<exists>f\<in>set (archive en src w). \<exists>g\<in>set (archive en src w).
        firstSegment (Name f) \<noteq> firstSegment (Name g)) \<longrightarrow>
      (\<forall>f\<in>set (archive en src w). entryPath en src dst w f = Some (Join [dst, Name f]))) \<and>
   (fst (unzipToFolder en src dst w) = None \<longrightarrow>
      (\<forall>f\<in>set (archive en src w). \<forall>t. entryPath en src dst w f = Some t \<longrightarrow>
         (if IsDir f then set (ancestors t) \<subseteq> dirs (snd (unzipToFolder en src dst w))
          else files (snd (unzipToFolder en src dst w)) t \<noteq> None))) \<and>
   (files (snd (unzipToFolder en src dst w)) p \<noteq> files w p \<longrightarrow>
      (\<exists>f\<in>set (archive en src w). \<not> IsDir f \<and> entryPath en src dst w f = Some p))"
proof -
  let ?fs = "archive en src w"
  have 1: "(prefix (r @ ''/'') (Name f) \<or> Name f = r) \<and>
         entryPath en src dst w f =
           (if Name f = r @ ''/'' then None
            else if prefix (r @ ''/'') (Name f) then Some (Join [dst, drop (length r + 1) (Name f)])
            else Some (Join [dst, Name f]))"
    if "r \<noteq> []" and "?fs \<noteq> []" and "\<forall>f\<in>set ?fs. firstSegment (Name f) = r" and "f \<in> set ?fs" for f
  proof -
    have "rootFolderScan [] ?fs = r" using that(1,2,3) by (rule rootFolderScan_shared)
    then show ?thesis using extractTarget_flat[OF that(1), of f dst] that(3,4)
      by (simp add: entryPath_def)
  qed
  have 2: "entryPath en src dst w f = Some (Join [dst, Name f])"
    if h1: "\<forall>f\<in>set ?fs. firstSegment (Name f) \<noteq> []"
      and h2: "\<exists>f\<in>set ?fs. \<exists>g\<in>set ?fs. firstSegment (Name f) \<noteq> firstSegment (Name g)" for f
  proof -
    obtain a b where "a \<in> set ?fs" "b \<in> set ?fs" "firstSegment (Name a) \<noteq> firstSegment (Name b)"
      using h2 by auto
    then have "rootFolderScan [] ?fs = []" using rootFolderScan_distinct[OF h1] by blast
    then show ?thesis by (simp add: entryPath_def extractTarget_def)
  qed
  have 3: "if IsDir f then set (ancestors t) \<subseteq> dirs (snd (unzipToFolder en src dst w))
          else files (snd (unzipToFolder en src dst w)) t \<noteq> None"
    if "fst (unzipToFolder en src dst w) = None" and "f \<in> set ?fs"
      and "entryPath en src dst w f = Some t" for f t
    using that by (rule unzipToFolder_done)
  have 4: "\<exists>f\<in>set ?fs. \<not> IsDir f \<and> entryPath en src dst w f = Some p"
    if ch: "files (snd (unzipToFolder en src dst w)) p \<noteq> files w p"
  proof (rule ccontr)
    assume n: "\<not> ?thesis"
    obtain e w' where u: "unzipToFolder en src dst w = (e, w')" by force
    have "w' \<noteq> w" using ch u by auto
    then have "unzipToFolder en src dst w = extractFiles en dst (rootFolderScan [] ?fs) ?fs w"
      by (rule unzipToFolder_archive[OF u])
    then have "files (snd (unzipToFolder en src dst w)) p = files w p"
      using extractFiles_keeps[of ?fs dst "rootFolderScan [] ?fs" p en w] n
      by (auto simp: entryPath_def)
    then show False using ch by simp
  qed
  show ?thesis
    apply (intro conjI impI ballI allI)
    subgoal for f using 1[of f] by blast
    subgoal for f using 1[of f] by blast
    subgoal for f using 2[of f] by blast
    subgoal for f t using 3[of f t] by blast
    subgoal using 4 by blast
    done
qed

theorem unzipToFolder_flattening_witness:
  "map Name (archive (envZip pkgZip) ''/tmp/client.zip'' worldZip)
     = [''pkg/'', ''pkg/init.lua'', ''pkg/data/'', ''pkg/data/x.dat''] \<and>
   map (entryPath (envZip pkgZip) ''/tmp/client.zip'' ''/home/u/.config/launcher/client'' worldZip) pkgZip
     = [None, Some ''/home/u/.config/launcher/client/init.lua'',
        Some ''/home/u/.config/launcher/client/data'',
        Some ''/home/u/.config/launcher/client/data/x.dat''] \<and>
   map Name (archive (envZip twoZip) ''/tmp/client.zip'' worldZip) = [''bin/run.sh'', ''lib/a.so''] \<and>
   map (entryPath (envZip twoZip) ''/tmp/client.zip'' ''/home/u/.config/launcher/client'' worldZip) twoZip
     = [Some ''/home/u/.config/launcher/client/bin/run.sh'',
        Some ''/home/u/.config/launcher/client/lib/a.so''] \<and>
   fst (unzipToFolder (envZip twoZip) ''/tmp/client.zip'' ''/home/u/.config/launcher/client'' worldZip) = None \<and>
   files (snd (unzipToFolder (envZip twoZip) ''/tmp/client.zip'' ''/home/u/.config/launcher/client'' worldZip))
     ''/home/u/.config/launcher/client/lib/a.so'' \<noteq> None"
proof -
  let ?src = "''/tmp/client.zip''" and ?dst = "''/home/u/.config/launcher/client''"
  have ap: "archive (envZip pkgZip) ?src worldZip = pkgZip"
    by (simp add: archive_def os_ReadFile_def envZip_def env0_def worldZip_def)
  have at: "archive (envZip twoZip) ?src worldZip = twoZip"
    by (simp add: archive_def os_ReadFile_def envZip_def env0_def worldZip_def)
  have np: "map Name pkgZip = [''pkg/'', ''pkg/init.lua'', ''pkg/data/'', ''pkg/data/x.dat'']"
    by (simp add: pkgZip_def)
  have nt: "map Name twoZip = [''bin/run.sh'', ''lib/a.so'']"
    by (simp add: twoZip_def)
  have sp: "map (firstSegment \<circ> Name) pkgZip = [''pkg'', ''pkg'', ''pkg'', ''pkg'']"
    by (simp add: pkgZip_def firstSegment_takeWhile)
  have st: "map (firstSegment \<circ> Name) twoZip = [''bin'', ''lib'']"
    by (simp add: twoZip_def firstSegment_takeWhile)
  have hp: "''pkg'' \<noteq> [] \<and> archive (envZip pkgZip) ?src worldZip \<noteq> [] \<and>
        (\<forall>f\<in>set (archive (envZip pkgZip) ?src worldZip). firstSegment (Name f) = ''pkg'')"
    unfolding ap using sp by (simp add: pkgZip_def)
  have ht: "(\<forall>f\<in>set (archive (envZip twoZip) ?src worldZip). firstSegment (Name f) \<noteq> []) \<and>
        (\<exists>f\<in>set (archive (envZip twoZip) ?src worldZip). \<exists>g\<in>set (archive (envZip twoZip) ?src worldZip).
           firstSegment (Name f) \<noteq> firstSegment (Name g))"
    unfolding at using st by (auto simp: twoZip_def)
  have j1: "Join [?dst, ''init.lua''] = ''/home/u/.config/launcher/client/init.lua''" by code_simp
  have j2: "Join [?dst, ''data/''] = ''/home/u/.config/launcher/client/data''" by code_simp
  have j3: "Join [?dst, ''data/x.dat''] = ''/home/u/.config/launcher/client/data/x.dat''" by code_simp
  have j4: "Join [?dst, ''bin/run.sh''] = ''/home/u/.config/launcher/client/bin/run.sh''" by code_simp
  have j5: "Join [?dst, ''lib/a.so''] = ''/home/u/.config/launcher/client/lib/a.so''" by code_simp
  have p: "\<forall>f\<in>set pkgZip. entryPath (envZip pkgZip) ?src ?dst worldZip f =
           (if Name f = ''pkg'' @ ''/'' then None
            else if prefix (''pkg'' @ ''/'') (Name f)
                 then Some (Join [?dst, drop (length ''pkg'' + 1) (Name f)])
            else Some (Join [?dst, Name f]))"
    using unzipToFolder_flattening[of "''pkg''" "envZip pkgZip" ?src worldZip ?dst,
            THEN conjunct1, rule_format, OF hp]
    unfolding ap by blast
  have ep: "map (entryPath (envZip pkgZip) ?src ?dst worldZip) pkgZip
     = [None, Some ''/home/u/.config/launcher/client/init.lua'',
        Some ''/home/u/.config/launcher/client/data'',
        Some ''/home/u/.config/launcher/client/data/x.dat'']"
    using p by (simp add: pkgZip_def j1 j2 j3)
  have t: "\<forall>f\<in>set twoZip. entryPath (envZip twoZip) ?src ?dst worldZip f = Some (Join [?dst, Name f])"
    using unzipToFolder_flattening[of _ "envZip twoZip" ?src worldZip ?dst,
            THEN conjunct2, THEN conjunct1, rule_format, OF ht]
    unfolding at by blast
  have et: "map (entryPath (envZip twoZip) ?src ?dst worldZip) twoZip
     = [Some ''/home/u/.config/launcher/client/bin/run.sh'',
        Some ''/home/u/.config/launcher/client/lib/a.so'']"
    using t by (simp add: twoZip_def j4 j5)
  have ok: "fst (unzipToFolder (envZip twoZip) ?src ?dst worldZip) = None" by code_simp
  have m: "twoZip ! 1 \<in> set (archive (envZip twoZip) ?src worldZip)"
    unfolding at by (simp add: twoZip_def)
  have e1: "entryPath (envZip twoZip) ?src ?dst worldZip (twoZip ! 1)
              = Some ''/home/u/.config/launcher/client/lib/a.so''"
    using et by (simp add: twoZip_def)
  have d: "\<not> IsDir (twoZip ! 1)" by (simp add: twoZip_def)
  have fl: "files (snd (unzipToFolder (envZip twoZip) ?src ?dst worldZip))
     ''/home/u/.config/launcher/client/lib/a.so'' \<noteq> None"
    using unzipToFolder_flattening[of _ "envZip twoZip" ?src worldZip ?dst,
            THEN conjunct2, THEN conjunct2, THEN conjunct1, rule_format, OF ok m e1] d
    by simp
  show ?thesis using ap at np nt ep et ok fl by simp
qed

theorem unzipToFolder_flattening_counterexample:
  "map Name (archive (envZip singleZip) ''/tmp/client.zip'' worldZip) = [''readme.txt''] \<and>
   firstSegment ''readme.txt'' = ''readme.txt'' \<and>
   files (snd (unzipToFolder (envZip singleZip) ''/tmp/client.zip'' ''/home/u/.config/launcher/client'' worldZip))
     ''/home/u/.config/launcher/client/readme.txt'' = Some ''hello'' \<and>
   map Name (archive (envZip slashZip) ''/tmp/client.zip'' worldZip) = [''/a.txt'', ''b/c.txt''] \<and>
   map firstSegment [''/a.txt'', ''b/c.txt''] = [[], ''b''] \<and>
   fst (unzipToFolder (envZip slashZip) ''/tmp/client.zip'' ''/home/u/.config/launcher/client'' worldZip) = None \<and>
   files (snd (unzipToFolder (envZip slashZip) ''/tmp/client.zip'' ''/home/u/.config/launcher/client'' worldZip))
     ''/home/u/.config/launcher/client/b/c.txt'' = None \<and>
   files (snd (unzipToFolder (envZip slashZip) ''/tmp/client.zip'' ''/home/u/.config/launcher/client'' worldZip))
     ''/home/u/.config/launcher/client/c.txt'' = Some ''c''"
proof -
  let ?src = "''/tmp/client.zip''" and ?dst = "''/home/u/.config/launcher/client''"
  have 1: "map Name (archive (envZip singleZip) ?src worldZip) = [''readme.txt'']"
    by (simp add: archive_def os_ReadFile_def envZip_def env0_def worldZip_def singleZip_def)
  have 2: "firstSegment ''readme.txt'' = ''readme.txt''" by (simp add: firstSegment_takeWhile)
  have 3: "files (snd (unzipToFolder (envZip singleZip) ?src ?dst worldZip))
     ''/home/u/.config/launcher/client/readme.txt'' = Some ''hello''" by code_simp
  have 4: "map Name (archive (envZip slashZip) ?src worldZip) = [''/a.txt'', ''b/c.txt'']"
    by (simp add: archive_def os_ReadFile_def envZip_def env0_def worldZip_def slashZip_def)
  have 5: "map firstSegment [''/a.txt'', ''b/c.txt''] = [[], ''b'']"
    by (simp add: firstSegment_takeWhile)
  have 6: "fst (unzipToFolder (envZip slashZip) ?src ?dst worldZip) = None" by code_simp
  have 7: "files (snd (unzipToFolder (envZip slashZip) ?src ?dst worldZip))
     ''/home/u/.config/launcher/client/b/c.txt'' = None" by code_simp
  have 8: "files (snd (unzipToFolder (envZip slashZip) ?src ?dst worldZip))
     ''/home/u/.config/launcher/client/c.txt'' = Some ''c''" by code_simp
  show ?thesis using 1 2 3 4 5 6 7 8 by simp
qed

subsection \<open>Archive extraction: inside the destination\<close>

















end
